theory Spec2Isabelle
  imports Main "HOL-Library.Word" "HOL-Library.Multiset" "HOL-Library.AList"
begin

section \<open>Data model\<close>

text \<open>
  The types of \<^verbatim>\<open>internal/config/config.go\<close> and \<^verbatim>\<open>internal/checker/checker.go\<close>.
  A Go \<^verbatim>\<open>uint64\<close> is a 64-bit word (subtraction wraps around), a \<^verbatim>\<open>common.Hash\<close>
  (32 bytes) a 256-bit word, a \<^verbatim>\<open>*big.Int\<close> an \<open>int option\<close> (\<open>None\<close> is the nil
  pointer), an \<^verbatim>\<open>error\<close> a \<open>string option\<close> holding its message (\<open>None\<close> is nil).
  A Go map is an association list with distinct keys, built with \<open>AList.update\<close>; the
  order in which a \<^verbatim>\<open>range\<close> visits it is not fixed by the language and is an explicit
  parameter of the model (see \<open>schedule\<close> below).
\<close>

type_synonym uint64 = "64 word"
type_synonym hash = "256 word"

record NodeInfo =
  ID :: string
  Chain :: string
  Address :: string

text \<open>\<^verbatim>\<open>NodeResult\<close> and \<^verbatim>\<open>FailedNode\<close> start with the same three fields as
  \<^verbatim>\<open>NodeInfo\<close>, so they are extensions of that record and share its selectors.\<close>

record NodeResult = NodeInfo +
  ChainID :: "int option"
  BlockNumber :: uint64
  BlockHashes :: "(uint64 \<times> hash) list"
  DebugOK :: bool
  Error :: "string option"

text \<open>The \<^verbatim>\<open>Reason\<close> of a \<^verbatim>\<open>FailedNode\<close> is one of five format strings with its
  arguments; \<open>reasonString\<close> below is the text that \<^verbatim>\<open>fmt.Sprintf\<close> makes of it.\<close>

datatype reason =
    ConnectionError string
  | ChainIDMismatch int int
  | BlockGapTooLarge uint64 uint64
  | DebugNotAvailable
  | BlockHashMismatch uint64 hash hash

record FailedNode = NodeInfo +
  Reason :: reason

record Options =
  MaxBlockGap :: uint64
  BlockHashCount :: "64 word"
  CheckDebugMode :: bool

text \<open>\<^verbatim>\<open>BlockHashCount\<close> is a Go \<^verbatim>\<open>int\<close> (64 bits, signed): it is read with \<open>sint\<close>.
  The field \<^verbatim>\<open>Chain\<close> of \<^verbatim>\<open>ChainResult\<close> is \<open>ChainName\<close> here, and the fields
  \<^verbatim>\<open>FailedNodes\<close> and \<^verbatim>\<open>Passed\<close> of \<^verbatim>\<open>CheckResult\<close> are \<open>AllFailedNodes\<close> and
  \<open>AllPassed\<close>, since a field name is one constant in a theory.\<close>

record ChainResult =
  ChainName :: string
  Nodes :: "NodeResult list"
  ExpectedChainID :: "int option"
  MaxBlockNumber :: uint64
  FailedNodes :: "FailedNode list"
  Passed :: bool

record CheckResult =
  ChainResults :: "ChainResult list"
  AllFailedNodes :: "FailedNode list"
  AllPassed :: bool

text \<open>Configuration: \<^verbatim>\<open>Connector\<close>, \<^verbatim>\<open>Upstream\<close> (its \<^verbatim>\<open>ID\<close> and \<^verbatim>\<open>Chain\<close> are
  \<open>UpstreamID\<close> and \<open>UpstreamChain\<close>), and \<^verbatim>\<open>Config\<close> with its \<^verbatim>\<open>UpstreamConfig\<close>
  flattened to the list of upstreams.\<close>

record Connector =
  Type :: string
  URL :: string

record Upstream =
  UpstreamID :: string
  UpstreamChain :: string
  Connectors :: "Connector list"

record Config =
  Upstreams :: "Upstream list"

text \<open>What goes wrong in Go: a nil pointer dereference (a panic), or a returned error.\<close>

datatype fault = NilPointerDereference | ReturnedError string

section \<open>The RPC endpoints\<close>

text \<open>
  What one endpoint answers during a run: to the dial (an error or a connection), to
  \<^verbatim>\<open>ChainID\<close> and \<^verbatim>\<open>BlockNumber\<close> (\<open>Inl\<close> is the error), to \<^verbatim>\<open>eth_getBlockByNumber\<close>
  at a height and to \<^verbatim>\<open>debug_traceBlockByNumber\<close> at a height (an error or none). A
  probe asks each question at most once, so that a function of the height covers every
  behaviour of an endpoint towards one probe; the network gives one endpoint for each
  address, which \<^verbatim>\<open>Load\<close> makes unique in a configuration.

  What \<^verbatim>\<open>CallContext\<close> leaves for \<^verbatim>\<open>eth_getBlockByNumber\<close>, as lines 245-270 tell it
  apart:
  \<^item> \<open>CallFailed\<close>: the call returns an error (line 246);
  \<^item> \<open>RawNil\<close>: no error and \<^verbatim>\<open>raw\<close> is nil (line 254). The client of go-ethereum never
    leaves this: an empty result is the error \<^verbatim>\<open>ErrNoResult\<close>, and every other result is
    copied into \<^verbatim>\<open>raw\<close>;
  \<^item> \<open>UnmarshalFailed\<close>: \<^verbatim>\<open>raw\<close> is not the JSON of a header (line 262);
  \<^item> \<open>NullResult\<close>: the node has no block at the height and answers the result
    \<^verbatim>\<open>null\<close>. Then \<^verbatim>\<open>raw\<close> is the four bytes \<^verbatim>\<open>null\<close>, not nil, and \<^verbatim>\<open>json.Unmarshal\<close>
    accepts them and leaves the header as it is, with the zero hash;
  \<^item> \<open>Header\<close>: \<^verbatim>\<open>raw\<close> is a header with this hash.
\<close>

datatype blockReply =
    CallFailed string
  | RawNil
  | UnmarshalFailed string
  | NullResult
  | Header hash

record endpoint =
  dial :: "string option"
  ethChainID :: "string + int"
  ethBlockNumber :: "string + uint64"
  getBlockByNumber :: "uint64 \<Rightarrow> blockReply"
  traceBlockByNumber :: "uint64 \<Rightarrow> string option"

text \<open>The calls a probe makes on its endpoint, in the order it makes them.\<close>

datatype rpcCall =
    DialContext string
  | CallChainID
  | CallBlockNumber
  | CallGetBlock uint64
  | CallTraceBlock uint64
  | CloseClient

section \<open>The probe: \<^verbatim>\<open>checkNode\<close>\<close>

text \<open>The hash that line 270 stores for a reply, none when the round ends in one of
  the three \<^verbatim>\<open>continue\<close> of lines 251, 258 and 267.\<close>

fun headerHash :: "blockReply \<Rightarrow> hash option" where
  "headerHash (Header h) = Some h"
| "headerHash NullResult = Some 0"
| "headerHash (CallFailed e) = None"
| "headerHash RawNil = None"
| "headerHash (UnmarshalFailed e) = None"

text \<open>The loop of lines 237-271, from counter \<open>i\<close> on, with the map \<^verbatim>\<open>info.BlockHashes\<close>
  and the calls made so far. \<open>cnt\<close> is \<^verbatim>\<open>c.opts.BlockHashCount\<close>; \<^verbatim>\<open>uint64(i)\<close> is
  \<open>of_nat i\<close>. The three \<^verbatim>\<open>continue\<close> branches leave the map as it is.\<close>

function hashLoop ::
  "endpoint \<Rightarrow> int \<Rightarrow> uint64 \<Rightarrow> nat \<Rightarrow> (uint64 \<times> hash) list \<times> rpcCall list
    \<Rightarrow> (uint64 \<times> hash) list \<times> rpcCall list" where
  "hashLoop ep cnt blockNumber i st =
     (if int i < cnt then
        (if blockNumber < of_nat i then st
         else
           (let targetBlock = blockNumber - of_nat i in
              hashLoop ep cnt blockNumber (Suc i)
                ((case headerHash (getBlockByNumber ep targetBlock) of
                    None \<Rightarrow> fst st
                  | Some h \<Rightarrow> AList.update targetBlock h (fst st)),
                 snd st @ [CallGetBlock targetBlock])))
      else st)"
  by pat_completeness auto
termination
  by (relation "measure (\<lambda>(ep, cnt, blockNumber, i, st). nat cnt - i)") auto

text \<open>\<^verbatim>\<open>checkNode\<close>, lines 203-292. The result is the \<^verbatim>\<open>NodeResult\<close> together with the
  calls made; the deferred \<^verbatim>\<open>rpcClient.Close()\<close> ends every path after a successful
  dial. The network \<open>net\<close> gives the endpoint behind an address.\<close>

definition checkNode ::
  "(string \<Rightarrow> endpoint) \<Rightarrow> Options \<Rightarrow> NodeInfo \<Rightarrow> NodeResult \<times> rpcCall list" where
  "checkNode net opts n =
     (let info = \<lparr>ID = ID n, Chain = Chain n, Address = Address n,
                  ChainID = None, BlockNumber = 0, BlockHashes = [], DebugOK = False,
                  Error = None\<rparr>;
          ep = net (Address n)
      in case dial ep of
           Some err \<Rightarrow>
             (info\<lparr>Error := Some (''failed to connect: '' @ err)\<rparr>,
              [DialContext (Address n)])
         | None \<Rightarrow>
             (case ethChainID ep of
                Inl err \<Rightarrow>
                  (info\<lparr>Error := Some (''failed to get chain ID: '' @ err)\<rparr>,
                   [DialContext (Address n), CallChainID, CloseClient])
              | Inr chainID \<Rightarrow>
                  (case ethBlockNumber ep of
                     Inl err \<Rightarrow>
                       (info\<lparr>ChainID := Some chainID,
                             Error := Some (''failed to get block number: '' @ err)\<rparr>,
                        [DialContext (Address n), CallChainID, CallBlockNumber, CloseClient])
                   | Inr blockNumber \<Rightarrow>
                       (let st = hashLoop ep (sint (BlockHashCount opts)) blockNumber 0
                                   ([], [DialContext (Address n), CallChainID, CallBlockNumber])
                        in if CheckDebugMode opts then
                             (info\<lparr>ChainID := Some chainID, BlockNumber := blockNumber,
                                   BlockHashes := fst st,
                                   DebugOK := (traceBlockByNumber ep blockNumber = None)\<rparr>,
                              snd st @ [CallTraceBlock blockNumber, CloseClient])
                           else
                             (info\<lparr>ChainID := Some chainID, BlockNumber := blockNumber,
                                   BlockHashes := fst st, DebugOK := True\<rparr>,
                              snd st @ [CloseClient])))))"

section \<open>The chain validation: \<^verbatim>\<open>checkChain\<close>\<close>

text \<open>Lines 128-133: the chain ID of the first node with no error and a chain ID.\<close>

fun findExpectedChainID :: "NodeResult list \<Rightarrow> int option" where
  "findExpectedChainID [] = None"
| "findExpectedChainID (node # rest) =
     (if Error node = None \<and> ChainID node \<noteq> None then ChainID node
      else findExpectedChainID rest)"

text \<open>Lines 136-140, from the value \<open>m\<close> of \<^verbatim>\<open>result.MaxBlockNumber\<close> so far.\<close>

fun findMaxBlockNumber :: "uint64 \<Rightarrow> NodeResult list \<Rightarrow> uint64" where
  "findMaxBlockNumber m [] = m"
| "findMaxBlockNumber m (node # rest) =
     findMaxBlockNumber (if Error node = None \<and> BlockNumber node > m then BlockNumber node else m) rest"

definition failedNode :: "NodeResult \<Rightarrow> reason \<Rightarrow> FailedNode" where
  "failedNode node r = \<lparr>ID = ID node, Chain = Chain node, Address = Address node, Reason = r\<rparr>"

definition appendFailed :: "ChainResult \<Rightarrow> FailedNode \<Rightarrow> ChainResult" where
  "appendFailed result f = result\<lparr>FailedNodes := FailedNodes result @ [f], Passed := False\<rparr>"

text \<open>\<^verbatim>\<open>node.ChainID.Cmp(result.ExpectedChainID) != 0\<close>: a nil receiver or argument is
  dereferenced.\<close>

definition chainIDDiffers :: "int option \<Rightarrow> int option \<Rightarrow> fault + bool" where
  "chainIDDiffers x y =
     (case x of
        None \<Rightarrow> Inl NilPointerDereference
      | Some a \<Rightarrow> (case y of None \<Rightarrow> Inl NilPointerDereference | Some b \<Rightarrow> Inr (a \<noteq> b)))"

text \<open>Lines 143-190: each node takes the first branch whose test holds, and
  \<^verbatim>\<open>continue\<close> goes to the next node.\<close>

fun validateNodes :: "Options \<Rightarrow> ChainResult \<Rightarrow> NodeResult list \<Rightarrow> fault + ChainResult" where
  "validateNodes opts result [] = Inr result"
| "validateNodes opts result (node # rest) =
     (case Error node of
        Some err \<Rightarrow>
          validateNodes opts
            (appendFailed result (failedNode node (ConnectionError err))) rest
      | None \<Rightarrow>
          (case (if ExpectedChainID result \<noteq> None
                 then chainIDDiffers (ChainID node) (ExpectedChainID result)
                 else Inr False) of
             Inl p \<Rightarrow> Inl p
           | Inr True \<Rightarrow>
               validateNodes opts
                 (appendFailed result
                    (failedNode node
                       (ChainIDMismatch (the (ExpectedChainID result)) (the (ChainID node)))))
                 rest
           | Inr False \<Rightarrow>
               (if MaxBlockNumber result - BlockNumber node > MaxBlockGap opts then
                  validateNodes opts
                    (appendFailed result
                       (failedNode node
                          (BlockGapTooLarge (MaxBlockNumber result - BlockNumber node)
                             (MaxBlockGap opts))))
                    rest
                else if CheckDebugMode opts \<and> \<not> DebugOK node then
                  validateNodes opts
                    (appendFailed result (failedNode node DebugNotAvailable)) rest
                else validateNodes opts result rest)))"

section \<open>The hash reconciliation: \<^verbatim>\<open>checkBlockHashes\<close>\<close>

type_synonym hashNodes = "(hash \<times> string list) list"
type_synonym blockHashNodes = "(uint64 \<times> hashNodes) list"

text \<open>The order of each \<^verbatim>\<open>range\<close> over a map in \<^verbatim>\<open>checkBlockHashes\<close>: over
  \<^verbatim>\<open>node.BlockHashes\<close> (line 302), over \<^verbatim>\<open>blockHashNodes\<close> (line 311), and over the
  \<^verbatim>\<open>hashMap\<close> of a block number, once for the majority (line 319) and once for the
  report (line 327). Each gives the entries of the map in the order visited; a
  schedule is valid when that is always a permutation of the entries.\<close>

record schedule =
  rangeBlockHashes :: "(uint64 \<times> hash) list \<Rightarrow> (uint64 \<times> hash) list"
  rangeBlockHashNodes :: "blockHashNodes \<Rightarrow> blockHashNodes"
  rangeMajority :: "uint64 \<Rightarrow> hashNodes \<Rightarrow> hashNodes"
  rangeReport :: "uint64 \<Rightarrow> hashNodes \<Rightarrow> hashNodes"

definition validSchedule :: "schedule \<Rightarrow> bool" where
  "validSchedule S \<longleftrightarrow>
     (\<forall>m. mset (rangeBlockHashes S m) = mset m) \<and>
     (\<forall>m. mset (rangeBlockHashNodes S m) = mset m) \<and>
     (\<forall>b m. mset (rangeMajority S b m) = mset m) \<and>
     (\<forall>b m. mset (rangeReport S b m) = mset m)"

definition inOrder :: schedule where
  "inOrder = \<lparr>rangeBlockHashes = (\<lambda>m. m), rangeBlockHashNodes = (\<lambda>m. m),
              rangeMajority = (\<lambda>b m. m), rangeReport = (\<lambda>b m. m)\<rparr>"

text \<open>The schedule that visits the map of a block number backwards when it looks for
  the majority, and every other map in the order of its list.\<close>

definition majorityBackwards :: schedule where
  "majorityBackwards = inOrder\<lparr>rangeMajority := (\<lambda>b m. rev m)\<rparr>"

text \<open>Line 303-306: a missing inner map is made, and the ID is appended to the slice
  of the hash (nil when the hash is new).\<close>

definition addNodeHash :: "string \<Rightarrow> uint64 \<times> hash \<Rightarrow> blockHashNodes \<Rightarrow> blockHashNodes" where
  "addNodeHash nodeID e m =
     (let hashMap = (case map_of m (fst e) of None \<Rightarrow> [] | Some hm \<Rightarrow> hm);
          ids = (case map_of hashMap (snd e) of None \<Rightarrow> [] | Some l \<Rightarrow> l)
      in AList.update (fst e) (AList.update (snd e) (ids @ [nodeID]) hashMap) m)"

fun addNodeHashes :: "string \<Rightarrow> (uint64 \<times> hash) list \<Rightarrow> blockHashNodes \<Rightarrow> blockHashNodes" where
  "addNodeHashes nodeID [] m = m"
| "addNodeHashes nodeID (e # es) m = addNodeHashes nodeID es (addNodeHash nodeID e m)"

text \<open>Lines 298-308.\<close>

fun collectHashes :: "schedule \<Rightarrow> NodeResult list \<Rightarrow> blockHashNodes \<Rightarrow> blockHashNodes" where
  "collectHashes S [] m = m"
| "collectHashes S (node # rest) m =
     (if Error node \<noteq> None then collectHashes S rest m
      else collectHashes S rest
             (addNodeHashes (ID node) (rangeBlockHashes S (BlockHashes node)) m))"

text \<open>Lines 317-324, from the values of \<^verbatim>\<open>majorityHash\<close> and \<^verbatim>\<open>maxCount\<close> so far.\<close>

fun findMajority :: "hashNodes \<Rightarrow> hash \<Rightarrow> nat \<Rightarrow> hash" where
  "findMajority [] majorityHash maxCount = majorityHash"
| "findMajority ((h, nodes) # rest) majorityHash maxCount =
     (if length nodes > maxCount then findMajority rest h (length nodes)
      else findMajority rest majorityHash maxCount)"

text \<open>Lines 333-340: address and chain of the first node with the ID, empty strings
  when there is none.\<close>

fun findNodeInfo :: "NodeResult list \<Rightarrow> string \<Rightarrow> string \<times> string" where
  "findNodeInfo [] nodeID = ('''', '''')"
| "findNodeInfo (n # rest) nodeID =
     (if ID n = nodeID then (Address n, Chain n) else findNodeInfo rest nodeID)"

text \<open>Lines 342-347: the record of a node ID whose hash is not the majority's.\<close>

definition mismatchNode :: "NodeResult list \<Rightarrow> uint64 \<Rightarrow> hash \<Rightarrow> hash \<Rightarrow> string \<Rightarrow> FailedNode" where
  "mismatchNode nodes blockNum h majorityHash nodeID =
     \<lparr>ID = nodeID, Chain = snd (findNodeInfo nodes nodeID),
      Address = fst (findNodeInfo nodes nodeID),
      Reason = BlockHashMismatch blockNum h majorityHash\<rparr>"

text \<open>Lines 331-349.\<close>

fun reportNodeIDs :: "uint64 \<Rightarrow> hash \<Rightarrow> hash \<Rightarrow> string list \<Rightarrow> ChainResult \<Rightarrow> ChainResult" where
  "reportNodeIDs blockNum h majorityHash [] result = result"
| "reportNodeIDs blockNum h majorityHash (nodeID # rest) result =
     reportNodeIDs blockNum h majorityHash rest
       (appendFailed result (mismatchNode (Nodes result) blockNum h majorityHash nodeID))"

text \<open>Lines 327-350.\<close>

fun reportMismatches :: "uint64 \<Rightarrow> hash \<Rightarrow> hashNodes \<Rightarrow> ChainResult \<Rightarrow> ChainResult" where
  "reportMismatches blockNum majorityHash [] result = result"
| "reportMismatches blockNum majorityHash ((h, nodeIDs) # rest) result =
     (if h = majorityHash then reportMismatches blockNum majorityHash rest result
      else reportMismatches blockNum majorityHash rest
             (reportNodeIDs blockNum h majorityHash nodeIDs result))"

text \<open>Lines 311-351.\<close>

fun checkBlocks :: "schedule \<Rightarrow> blockHashNodes \<Rightarrow> ChainResult \<Rightarrow> ChainResult" where
  "checkBlocks S [] result = result"
| "checkBlocks S ((blockNum, hashMap) # rest) result =
     (if length hashMap \<le> 1 then checkBlocks S rest result
      else checkBlocks S rest
             (reportMismatches blockNum
                (findMajority (rangeMajority S blockNum hashMap) 0 0)
                (rangeReport S blockNum hashMap) result))"

definition checkBlockHashes :: "schedule \<Rightarrow> ChainResult \<Rightarrow> ChainResult" where
  "checkBlockHashes S result =
     checkBlocks S (rangeBlockHashNodes S (collectHashes S (Nodes result) [])) result"

text \<open>\<^verbatim>\<open>checkChain\<close>, lines 100-196. Every goroutine writes the result of its probe
  into the slot of its node and \<^verbatim>\<open>wg.Wait()\<close> joins them, so \<^verbatim>\<open>result.Nodes\<close> is the
  list of the probes' results in input order.\<close>

definition checkChain ::
  "schedule \<Rightarrow> (string \<Rightarrow> endpoint) \<Rightarrow> Options \<Rightarrow> string \<Rightarrow> NodeInfo list \<Rightarrow> fault + ChainResult" where
  "checkChain S net opts chain nodes =
     (let probed = map (\<lambda>n. fst (checkNode net opts n)) nodes;
          result = \<lparr>ChainName = chain, Nodes = probed,
                    ExpectedChainID = findExpectedChainID probed,
                    MaxBlockNumber = findMaxBlockNumber 0 probed,
                    FailedNodes = [], Passed = True\<rparr>
      in case validateNodes opts result probed of
           Inl p \<Rightarrow> Inl p
         | Inr result' \<Rightarrow> Inr (checkBlockHashes S result'))"

section \<open>The run: \<^verbatim>\<open>Load\<close>, \<^verbatim>\<open>GetNodesByChain\<close> and \<^verbatim>\<open>Check\<close>\<close>

text \<open>Lines 52-63 of \<^verbatim>\<open>config.go\<close>: the connectors of one upstream, then the upstreams,
  with the URLs seen so far.\<close>

fun checkConnectors :: "string \<Rightarrow> Connector list \<Rightarrow> string list \<Rightarrow> fault + string list" where
  "checkConnectors uid [] seen = Inr seen"
| "checkConnectors uid (c # cs) seen =
     (if URL c = [] then
        Inl (ReturnedError (''upstream '' @ uid @ '' has empty connector URL''))
      else if URL c \<in> set seen then
        Inl (ReturnedError (''duplicate connector URL: '' @ URL c))
      else checkConnectors uid cs (URL c # seen))"

fun checkUpstreams :: "Upstream list \<Rightarrow> string list \<Rightarrow> fault + string list" where
  "checkUpstreams [] seen = Inr seen"
| "checkUpstreams (u # us) seen =
     (case checkConnectors (UpstreamID u) (Connectors u) seen of
        Inl e \<Rightarrow> Inl e
      | Inr seen' \<Rightarrow> checkUpstreams us seen')"

text \<open>\<^verbatim>\<open>Load\<close>, lines 36-66. \<open>readFile\<close> is the file system (\<^verbatim>\<open>os.ReadFile\<close>) and
  \<open>unmarshal\<close> the YAML parser (\<^verbatim>\<open>yaml.Unmarshal\<close>), \<open>Inl\<close> their errors.\<close>

definition Load ::
  "(string \<Rightarrow> string + string) \<Rightarrow> (string \<Rightarrow> string + Config) \<Rightarrow> string \<Rightarrow> fault + Config" where
  "Load readFile unmarshal path =
     (case readFile path of
        Inl err \<Rightarrow> Inl (ReturnedError (''failed to read config file: '' @ err))
      | Inr data \<Rightarrow>
          (case unmarshal data of
             Inl err \<Rightarrow> Inl (ReturnedError (''failed to parse config file: '' @ err))
           | Inr cfg \<Rightarrow>
               if length (Upstreams cfg) = 0 then
                 Inl (ReturnedError ''no upstreams configured in config file'')
               else
                 (case checkUpstreams (Upstreams cfg) [] of
                    Inl e \<Rightarrow> Inl e
                  | Inr seen \<Rightarrow> Inr cfg)))"

text \<open>\<^verbatim>\<open>GetNodesByChain\<close>, lines 69-86: the map from chain to nodes.\<close>

fun addConnectors ::
  "Upstream \<Rightarrow> Connector list \<Rightarrow> (string \<times> NodeInfo list) list \<Rightarrow> (string \<times> NodeInfo list) list" where
  "addConnectors u [] result = result"
| "addConnectors u (c # cs) result =
     (if Type c \<noteq> ''json-rpc'' then addConnectors u cs result
      else addConnectors u cs
             (AList.update (UpstreamChain u)
                ((case map_of result (UpstreamChain u) of None \<Rightarrow> [] | Some ns \<Rightarrow> ns) @
                 [\<lparr>ID = UpstreamID u, Chain = UpstreamChain u, Address = URL c\<rparr>])
                result))"

fun addUpstreams ::
  "Upstream list \<Rightarrow> (string \<times> NodeInfo list) list \<Rightarrow> (string \<times> NodeInfo list) list" where
  "addUpstreams [] result = result"
| "addUpstreams (u # us) result = addUpstreams us (addConnectors u (Connectors u) result)"

definition GetNodesByChain :: "Config \<Rightarrow> (string \<times> NodeInfo list) list" where
  "GetNodesByChain c = addUpstreams (Upstreams c) []"

text \<open>\<^verbatim>\<open>Check\<close>, lines 78-98 of \<^verbatim>\<open>checker.go\<close>. \<open>rangeChains\<close> is the order in which
  the \<^verbatim>\<open>range\<close> of line 87 visits the chains, and \<open>scheds\<close> gives the schedule of each
  chain's \<^verbatim>\<open>checkBlockHashes\<close>. The error that \<^verbatim>\<open>Check\<close> returns is always nil: the
  result is \<open>Inr\<close> of the report unless a \<^verbatim>\<open>checkChain\<close> panics.\<close>

fun checkChains ::
  "(string \<Rightarrow> schedule) \<Rightarrow> (string \<Rightarrow> endpoint) \<Rightarrow> Options \<Rightarrow> (string \<times> NodeInfo list) list
    \<Rightarrow> CheckResult \<Rightarrow> fault + CheckResult" where
  "checkChains scheds net opts [] result = Inr result"
| "checkChains scheds net opts ((chain, nodes) # rest) result =
     (case checkChain (scheds chain) net opts chain nodes of
        Inl p \<Rightarrow> Inl p
      | Inr chainResult \<Rightarrow>
          checkChains scheds net opts rest
            \<lparr>ChainResults = ChainResults result @ [chainResult],
             AllFailedNodes = AllFailedNodes result @ FailedNodes chainResult,
             AllPassed = (if \<not> Passed chainResult then False else AllPassed result)\<rparr>)"

definition Check ::
  "((string \<times> NodeInfo list) list \<Rightarrow> (string \<times> NodeInfo list) list) \<Rightarrow> (string \<Rightarrow> schedule)
    \<Rightarrow> (string \<Rightarrow> endpoint) \<Rightarrow> Options \<Rightarrow> Config \<Rightarrow> fault + CheckResult" where
  "Check rangeChains scheds net opts cfg =
     checkChains scheds net opts (rangeChains (GetNodesByChain cfg))
       \<lparr>ChainResults = [], AllFailedNodes = [], AllPassed = True\<rparr>"

section \<open>The text of a reason\<close>

text \<open>\<^verbatim>\<open>%d\<close> of a \<^verbatim>\<open>uint64\<close> is its decimal numeral, \<^verbatim>\<open>String()\<close> of a \<^verbatim>\<open>big.Int\<close>
  its decimal numeral with a minus sign when negative, \<^verbatim>\<open>Hex()\<close> of a hash \<^verbatim>\<open>0x\<close> and
  its 64 hexadecimal digits, and \<^verbatim>\<open>%v\<close> of an error its message.\<close>

function decimal :: "nat \<Rightarrow> string" where
  "decimal n =
     (if n < 10 then [''0123456789'' ! n]
      else decimal (n div 10) @ [''0123456789'' ! (n mod 10)])"
  by pat_completeness auto
termination
  by (relation "measure (\<lambda>n. n)") auto

primrec hexDigits :: "nat \<Rightarrow> nat \<Rightarrow> string" where
  "hexDigits 0 n = []"
| "hexDigits (Suc k) n = hexDigits k (n div 16) @ [''0123456789abcdef'' ! (n mod 16)]"

definition hashHex :: "hash \<Rightarrow> string" where
  "hashHex h = ''0x'' @ hexDigits 64 (unat h)"

definition bigString :: "int \<Rightarrow> string" where
  "bigString i = (if i < 0 then CHR ''-'' # decimal (nat (- i)) else decimal (nat i))"

fun reasonString :: "reason \<Rightarrow> string" where
  "reasonString (ConnectionError err) = ''connection error: '' @ err"
| "reasonString (ChainIDMismatch expected got) =
     ''chain ID mismatch: expected '' @ bigString expected @ '', got '' @ bigString got"
| "reasonString (BlockGapTooLarge gap maxGap) =
     ''block gap too large: '' @ decimal (unat gap) @ '' blocks behind (max allowed: '' @
     decimal (unat maxGap) @ '')''"
| "reasonString DebugNotAvailable =
     ''debug mode not available (debug_traceBlockByNumber not supported)''"
| "reasonString (BlockHashMismatch blockNum h majorityHash) =
     ''block hash mismatch at block '' @ decimal (unat blockNum) @ '': got '' @ hashHex h @
     '', expected '' @ hashHex majorityHash"

section \<open>An example network\<close>

text \<open>Endpoints at height 3 or below: \<open>a\<close>, \<open>c\<close> and every other address agree on
  every block and answer the call for block 2 with an error, \<open>b\<close> has another hash for
  block 3, \<open>d\<close> refuses the connection, \<open>e\<close> is on another network at height 0 without
  the trace API, \<open>f\<close> fails the block number query, \<open>g\<close> has the hash of \<open>b\<close> for block
  3 and no trace API, \<open>h\<close> is at height 0, and \<open>n\<close> has no block 2 and answers
  \<^verbatim>\<open>null\<close> for it.\<close>

definition goodEndpoint :: endpoint where
  "goodEndpoint =
     \<lparr>dial = None, ethChainID = Inr 1, ethBlockNumber = Inr 3,
      getBlockByNumber =
        (\<lambda>b. if b = 2 then CallFailed ''header not found'' else Header (ucast b + 100)),
      traceBlockByNumber = (\<lambda>b. None)\<rparr>"

definition exampleNet :: "string \<Rightarrow> endpoint" where
  "exampleNet addr =
     (if addr = ''http://b'' then
        goodEndpoint\<lparr>getBlockByNumber := (\<lambda>b. if b = 3 then Header 7 else Header (ucast b + 100))\<rparr>
      else if addr = ''http://d'' then goodEndpoint\<lparr>dial := Some ''connection refused''\<rparr>
      else if addr = ''http://e'' then
        goodEndpoint\<lparr>ethChainID := Inr 2, ethBlockNumber := Inr 0,
                     traceBlockByNumber := (\<lambda>b. Some ''method not found'')\<rparr>
      else if addr = ''http://f'' then goodEndpoint\<lparr>ethBlockNumber := Inl ''timeout''\<rparr>
      else if addr = ''http://h'' then goodEndpoint\<lparr>ethBlockNumber := Inr 0\<rparr>
      else if addr = ''http://n'' then
        goodEndpoint\<lparr>getBlockByNumber := (\<lambda>b. if b = 2 then NullResult else Header (ucast b + 100))\<rparr>
      else if addr = ''http://g'' then
        goodEndpoint\<lparr>getBlockByNumber := (\<lambda>b. if b = 3 then Header 7 else Header (ucast b + 100)),
                     traceBlockByNumber := (\<lambda>b. Some ''method not found'')\<rparr>
      else goodEndpoint)"

definition exampleNode :: "string \<Rightarrow> string \<Rightarrow> NodeInfo" where
  "exampleNode i addr = \<lparr>ID = i, Chain = ''sepolia'', Address = addr\<rparr>"

definition exampleOpts :: Options where
  "exampleOpts = \<lparr>MaxBlockGap = 2, BlockHashCount = 5, CheckDebugMode = True\<rparr>"

text \<open>The outcomes of the probes of \<open>a\<close>, \<open>b\<close> and \<open>c\<close>.\<close>

definition exampleProbed :: "NodeResult list" where
  "exampleProbed =
     [\<lparr>ID = ''a'', Chain = ''sepolia'', Address = ''http://a'', ChainID = Some 1,
       BlockNumber = 3, BlockHashes = [(3, 103), (1, 101), (0, 100)], DebugOK = True,
       Error = None\<rparr>,
      \<lparr>ID = ''b'', Chain = ''sepolia'', Address = ''http://b'', ChainID = Some 1,
       BlockNumber = 3, BlockHashes = [(3, 7), (2, 102), (1, 101), (0, 100)],
       DebugOK = True, Error = None\<rparr>,
      \<lparr>ID = ''c'', Chain = ''sepolia'', Address = ''http://c'', ChainID = Some 1,
       BlockNumber = 3, BlockHashes = [(3, 103), (1, 101), (0, 100)], DebugOK = True,
       Error = None\<rparr>]"

text \<open>The result of the chain of \<open>a\<close>, \<open>b\<close> and \<open>c\<close> when \<open>a\<close> and \<open>b\<close> are the two connectors
  of one upstream \<open>u\<close>, and \<open>c\<close> the connector of an upstream \<open>v\<close>.\<close>

definition sharedIDResult :: ChainResult where
  "sharedIDResult =
     \<lparr>ChainName = ''sepolia'',
      Nodes =
        [(exampleProbed ! 0)\<lparr>ID := ''u''\<rparr>, (exampleProbed ! 1)\<lparr>ID := ''u''\<rparr>,
         (exampleProbed ! 2)\<lparr>ID := ''v''\<rparr>],
      ExpectedChainID = Some 1, MaxBlockNumber = 3,
      FailedNodes =
        [\<lparr>ID = ''u'', Chain = ''sepolia'', Address = ''http://a'',
          Reason = BlockHashMismatch 3 7 103\<rparr>],
      Passed = False\<rparr>"

section \<open>Notions of the specification\<close>

text \<open>The height that a hash-mismatch record is about.\<close>

fun mismatchHeight :: "reason \<Rightarrow> uint64 option" where
  "mismatchHeight (BlockHashMismatch blockNum h majorityHash) = Some blockNum"
| "mismatchHeight (ConnectionError err) = None"
| "mismatchHeight (ChainIDMismatch expected got) = None"
| "mismatchHeight (BlockGapTooLarge gap maxGap) = None"
| "mismatchHeight DebugNotAvailable = None"

text \<open>The classification of the specification (section 4.2, step 4): the rules (a) to
  (d) in this order, the first that matches giving the reason.\<close>

definition firstRule :: "Options \<Rightarrow> int option \<Rightarrow> uint64 \<Rightarrow> NodeResult \<Rightarrow> reason option" where
  "firstRule opts baseline maxHeight node =
     (if Error node \<noteq> None then Some (ConnectionError (the (Error node)))
      else if baseline \<noteq> None \<and> ChainID node \<noteq> baseline then
        Some (ChainIDMismatch (the baseline) (the (ChainID node)))
      else if maxHeight - BlockNumber node > MaxBlockGap opts then
        Some (BlockGapTooLarge (maxHeight - BlockNumber node) (MaxBlockGap opts))
      else if CheckDebugMode opts \<and> \<not> DebugOK node then Some DebugNotAvailable
      else None)"

definition ruleFailures :: "Options \<Rightarrow> int option \<Rightarrow> uint64 \<Rightarrow> NodeResult list \<Rightarrow> FailedNode list" where
  "ruleFailures opts baseline maxHeight nodes =
     List.map_filter (\<lambda>node. map_option (failedNode node) (firstRule opts baseline maxHeight node)) nodes"

text \<open>The IDs of the nodes without failure that report hash \<open>h\<close> at height \<open>b\<close>, in
  input order.\<close>

definition reporters :: "NodeResult list \<Rightarrow> uint64 \<Rightarrow> hash \<Rightarrow> string list" where
  "reporters nodes b h =
     map ID (filter (\<lambda>n. Error n = None \<and> map_of (BlockHashes n) b = Some h) nodes)"

text \<open>The slice that \<^verbatim>\<open>blockHashNodes[b][h]\<close> reads (nil when a key is missing).\<close>

definition lookup2 :: "blockHashNodes \<Rightarrow> uint64 \<Rightarrow> hash \<Rightarrow> string list" where
  "lookup2 m b h =
     (case map_of m b of
        None \<Rightarrow> []
      | Some hm \<Rightarrow> (case map_of hm h of None \<Rightarrow> [] | Some ids \<Rightarrow> ids))"

text \<open>A map \<^verbatim>\<open>blockHashNodes\<close> is well formed when its keys and the keys of its inner
  maps are distinct and no slice is empty.\<close>

definition wellFormed :: "blockHashNodes \<Rightarrow> bool" where
  "wellFormed m \<longleftrightarrow>
     distinct (map fst m) \<and>
     (\<forall>e \<in> set m. distinct (map fst (snd e)) \<and> (\<forall>s \<in> set (snd e). snd s \<noteq> []))"

text \<open>The records that one round of the loop of lines 311-351 appends, and the
  records of all rounds.\<close>

definition hashRecords :: "NodeResult list \<Rightarrow> uint64 \<Rightarrow> hash \<Rightarrow> hashNodes \<Rightarrow> FailedNode list" where
  "hashRecords nodes b majorityHash hm =
     concat (map (\<lambda>(h, ids). if h = majorityHash then []
                              else map (mismatchNode nodes b h majorityHash) ids) hm)"

definition blockRecords :: "schedule \<Rightarrow> NodeResult list \<Rightarrow> uint64 \<times> hashNodes \<Rightarrow> FailedNode list" where
  "blockRecords S nodes e =
     (if length (snd e) \<le> 1 then []
      else hashRecords nodes (fst e) (findMajority (rangeMajority S (fst e) (snd e)) 0 0)
             (rangeReport S (fst e) (snd e)))"

definition hashFailures :: "schedule \<Rightarrow> NodeResult list \<Rightarrow> FailedNode list" where
  "hashFailures S nodes =
     concat (map (blockRecords S nodes) (rangeBlockHashNodes S (collectHashes S nodes [])))"

text \<open>The connector URLs of a configuration, in the order of the file.\<close>

definition connectorURLs :: "Upstream list \<Rightarrow> string list" where
  "connectorURLs us = concat (map (\<lambda>u. map URL (Connectors u)) us)"

text \<open>A configuration with one upstream that has no JSON-RPC connector.\<close>

definition noRpcConfig :: Config where
  "noRpcConfig =
     \<lparr>Upstreams =
        [\<lparr>UpstreamID = ''u'', UpstreamChain = ''sepolia'',
          Connectors = [\<lparr>Type = ''websocket'', URL = ''ws://a''\<rparr>]\<rparr>]\<rparr>"

section \<open>The probe\<close>

declare hashLoop.simps [simp del]
declare decimal.simps [simp del]

lemma unat_of_nat64: "i < 2 ^ 64 \<Longrightarrow> unat (of_nat i :: 64 word) = i"
  by (simp add: unat_of_nat)

lemma less_of_nat64: "i < 2 ^ 64 \<Longrightarrow> (bn < (of_nat i :: 64 word)) \<longleftrightarrow> unat bn < i"
  by (simp add: word_less_nat_alt unat_of_nat64)

lemma unat_sub_of_nat64:
  "i \<le> unat bn \<Longrightarrow> unat (bn - (of_nat i :: 64 word)) = unat bn - i"
proof -
  assume a: "i \<le> unat bn"
  then have u: "unat (of_nat i :: 64 word) = i" by (rule le_unat_uoi)
  with a have "(of_nat i :: 64 word) \<le> bn" by (simp add: word_le_nat_alt)
  then show ?thesis using u by (simp add: unat_sub)
qed

lemma below_window: "cnt \<le> 2 ^ 63 \<Longrightarrow> int i < cnt \<Longrightarrow> i < 2 ^ 64"
proof -
  assume "cnt \<le> 2 ^ 63" and "int i < cnt"
  then have "int i < 2 ^ 64" by simp
  then show ?thesis by (simp only: of_nat_less_numeral_power_cancel_iff)
qed

lemma length_update_le: "length (AList.update k v al) \<le> Suc (length al)"
  by (induction al) auto

text \<open>One round of the loop, when it is entered and does not break.\<close>

lemma hashLoop_step:
  "int i < cnt \<Longrightarrow> \<not> bn < of_nat i \<Longrightarrow>
   hashLoop ep cnt bn i st =
     hashLoop ep cnt bn (Suc i)
       ((case headerHash (getBlockByNumber ep (bn - of_nat i)) of
           None \<Rightarrow> fst st
         | Some h \<Rightarrow> AList.update (bn - of_nat i) h (fst st)),
        snd st @ [CallGetBlock (bn - of_nat i)])"
  by (simp add: hashLoop.simps [of ep cnt bn i st] Let_def)

lemma hashLoop_stop:
  "\<not> (int i < cnt \<and> \<not> bn < of_nat i) \<Longrightarrow> hashLoop ep cnt bn i st = st"
  by (auto simp: hashLoop.simps [of ep cnt bn i st])

lemma hashLoop_length:
  "length (fst (hashLoop ep cnt bn i st)) \<le> length (fst st) + (nat cnt - i)"
proof (induction ep cnt bn i st rule: hashLoop.induct)
  case (1 ep cnt bn i st)
  consider (stop) "\<not> (int i < cnt \<and> \<not> bn < of_nat i)" | (step) "int i < cnt" "\<not> bn < of_nat i"
    by blast
  then show ?case
  proof cases
    case stop
    then show ?thesis by (simp add: hashLoop_stop)
  next
    case step
    let ?t = "bn - of_nat i"
    let ?st = "((case headerHash (getBlockByNumber ep ?t) of None \<Rightarrow> fst st
                  | Some h \<Rightarrow> AList.update ?t h (fst st)), snd st @ [CallGetBlock ?t])"
    have "length (fst (hashLoop ep cnt bn (Suc i) ?st)) \<le> length (fst ?st) + (nat cnt - Suc i)"
      using step by (intro "1.IH") auto
    moreover have "length (fst ?st) \<le> Suc (length (fst st))"
      using length_update_le [of ?t _ "fst st"] by (auto split: option.splits)
    moreover have "Suc (nat cnt - Suc i) = nat cnt - i" using step by linarith
    ultimately show ?thesis unfolding hashLoop_step [OF step] by linarith
  qed
qed

lemma hashLoop_distinct:
  "distinct (map fst (fst st)) \<Longrightarrow> distinct (map fst (fst (hashLoop ep cnt bn i st)))"
proof (induction ep cnt bn i st rule: hashLoop.induct)
  case (1 ep cnt bn i st)
  consider (stop) "\<not> (int i < cnt \<and> \<not> bn < of_nat i)" | (step) "int i < cnt" "\<not> bn < of_nat i"
    by blast
  then show ?case
  proof cases
    case stop
    then show ?thesis using "1.prems" by (simp add: hashLoop_stop)
  next
    case step
    let ?t = "bn - of_nat i"
    let ?st = "((case headerHash (getBlockByNumber ep ?t) of None \<Rightarrow> fst st
                  | Some h \<Rightarrow> AList.update ?t h (fst st)), snd st @ [CallGetBlock ?t])"
    have "distinct (map fst (fst ?st))"
      using "1.prems" by (simp add: distinct_update split: option.splits)
    then have "distinct (map fst (fst (hashLoop ep cnt bn (Suc i) ?st)))"
      using step by (intro "1.IH") auto
    then show ?thesis unfolding hashLoop_step [OF step] .
  qed
qed

text \<open>The heights that the loop visits from counter \<open>i\<close> on.\<close>

lemma hashLoop_map_of:
  "cnt \<le> 2 ^ 63 \<Longrightarrow>
   map_of (fst (hashLoop ep cnt bn i st)) k =
     (if k \<le> bn \<and> i \<le> unat bn - unat k \<and> int (unat bn - unat k) < cnt then
        (case headerHash (getBlockByNumber ep k) of None \<Rightarrow> map_of (fst st) k | Some h \<Rightarrow> Some h)
      else map_of (fst st) k)"
proof (induction ep cnt bn i st rule: hashLoop.induct)
  case (1 ep cnt bn i st)
  have i64: "int i < cnt \<Longrightarrow> i < 2 ^ 64"
    using "1.prems" by (rule below_window)
  let ?win = "\<lambda>i. k \<le> bn \<and> i \<le> unat bn - unat k \<and> int (unat bn - unat k) < cnt"
  consider (stop) "\<not> (int i < cnt \<and> \<not> bn < of_nat i)" | (step) "int i < cnt" "\<not> bn < of_nat i"
    by blast
  then show ?case
  proof cases
    case stop
    then have nw: "\<not> ?win i"
      using i64 by (auto simp: less_of_nat64)
    show ?thesis unfolding hashLoop_stop [OF stop] by (simp only: nw if_False)
  next
    case step
    let ?t = "bn - of_nat i"
    let ?st = "((case headerHash (getBlockByNumber ep ?t) of None \<Rightarrow> fst st
                  | Some h \<Rightarrow> AList.update ?t h (fst st)), snd st @ [CallGetBlock ?t])"
    have le: "i \<le> unat bn" using step i64 by (simp add: less_of_nat64)
    have ut: "unat ?t = unat bn - i" using le by (rule unat_sub_of_nat64)
    have "k = ?t \<longleftrightarrow> unat k = unat bn - i" using ut by (metis word_unat_eq_iff)
    then have win: "?win i \<longleftrightarrow> k = ?t \<or> ?win (Suc i)"
      using le step by (auto simp: word_le_nat_alt)
    have notwin: "k = ?t \<Longrightarrow> \<not> ?win (Suc i)"
      using ut le by simp
    have IH: "map_of (fst (hashLoop ep cnt bn (Suc i) ?st)) k =
     (if ?win (Suc i) then
        (case headerHash (getBlockByNumber ep k) of None \<Rightarrow> map_of (fst ?st) k | Some h \<Rightarrow> Some h)
      else map_of (fst ?st) k)"
      using step "1.prems" by (intro "1.IH") auto
    show ?thesis
      unfolding hashLoop_step [OF step] IH using win notwin
      by (auto simp: update_conv' split: option.splits)
  qed
qed

lemma hashLoop_calls:
  "cnt \<le> 2 ^ 63 \<Longrightarrow>
   snd (hashLoop ep cnt bn i st) =
     snd st @ map (\<lambda>j. CallGetBlock (bn - of_nat j)) [i ..< min (nat cnt) (Suc (unat bn))]"
proof (induction ep cnt bn i st rule: hashLoop.induct)
  case (1 ep cnt bn i st)
  have i64: "int i < cnt \<Longrightarrow> i < 2 ^ 64"
    using "1.prems" by (rule below_window)
  consider (stop) "\<not> (int i < cnt \<and> \<not> bn < of_nat i)" | (step) "int i < cnt" "\<not> bn < of_nat i"
    by blast
  then show ?case
  proof cases
    case stop
    then have "[i ..< min (nat cnt) (Suc (unat bn))] = []"
      using i64 by (auto simp: less_of_nat64)
    then show ?thesis using stop by (simp add: hashLoop_stop)
  next
    case step
    let ?t = "bn - of_nat i"
    let ?st = "((case headerHash (getBlockByNumber ep ?t) of None \<Rightarrow> fst st
                  | Some h \<Rightarrow> AList.update ?t h (fst st)), snd st @ [CallGetBlock ?t])"
    have le: "i \<le> unat bn" using step i64 by (simp add: less_of_nat64)
    have lt: "i < min (nat cnt) (Suc (unat bn))" using le step by auto
    have IH: "snd (hashLoop ep cnt bn (Suc i) ?st) =
       snd ?st @ map (\<lambda>j. CallGetBlock (bn - of_nat j)) [Suc i ..< min (nat cnt) (Suc (unat bn))]"
      using step "1.prems" by (intro "1.IH") auto
    show ?thesis
      unfolding hashLoop_step [OF step] IH using lt by (simp add: upt_conv_Cons)
  qed
qed

text \<open>A height is in the window of a probe when it lies between
  \<open>max 0 (height - hashWindow + 1)\<close> and the height.\<close>

lemma window_iff:
  "(k \<le> bn \<and> 0 \<le> unat bn - unat k \<and> int (unat bn - unat k) < w) \<longleftrightarrow>
   (max 0 (uint bn - w + 1) \<le> uint k \<and> k \<le> bn)"
  for k bn :: uint64
proof (cases "k \<le> bn")
  case True
  then have "unat k \<le> unat bn" by (simp add: word_le_nat_alt)
  then have "int (unat bn - unat k) = uint bn - uint k" by (simp add: of_nat_diff)
  then show ?thesis using True by auto
next
  case False
  then show ?thesis by simp
qed

lemma fetched_heights:
  "cnt \<le> 2 ^ 63 \<Longrightarrow>
   CallGetBlock k \<in> set (map (\<lambda>j. CallGetBlock (bn - of_nat j)) [0 ..< min (nat cnt) (Suc (unat bn))])
   \<longleftrightarrow> k \<le> bn \<and> int (unat bn - unat k) < cnt"
proof -
  assume c: "cnt \<le> 2 ^ 63"
  have "(\<exists>j. j < nat cnt \<and> j \<le> unat bn \<and> k = bn - of_nat j) \<longleftrightarrow>
        (k \<le> bn \<and> int (unat bn - unat k) < cnt)" (is "?L \<longleftrightarrow> ?R")
  proof
    assume ?L
    then obtain j where j: "j < nat cnt" "j \<le> unat bn" "k = bn - of_nat j" by blast
    have "unat k = unat bn - j" using j by (simp add: unat_sub_of_nat64)
    then show ?R using j by (auto simp: word_le_nat_alt)
  next
    assume r: ?R
    let ?j = "unat bn - unat k"
    have kb: "unat k \<le> unat bn" using r by (simp add: word_le_nat_alt)
    have "unat (bn - of_nat ?j) = unat bn - ?j" by (rule unat_sub_of_nat64) simp
    then have "unat (bn - of_nat ?j) = unat k" using kb by simp
    then have "k = bn - of_nat ?j" by (metis word_unat_eq_iff)
    moreover have "?j < nat cnt" using r by linarith
    ultimately show ?L by (intro exI [of _ ?j]) simp
  qed
  then show ?thesis by (auto simp: image_iff)
qed

text \<open>The window of a successful probe. It holds at most \<open>hashWindow\<close> block hashes
  (none when the window is negative), under distinct heights; every height it holds
  lies between \<open>max 0 (height - hashWindow + 1)\<close> and \<open>height\<close>; the heights it fetches
  are exactly those, so that no target below zero is ever computed; whatever the
  fetches answer the probe is successful and fetches every height of the window; and
  a height is absent when its call failed, left \<^verbatim>\<open>raw\<close> nil or gave no JSON of a
  header, holds the hash of the header when there is one, and holds the zero hash
  when the node answered \<^verbatim>\<open>null\<close>.\<close>

theorem checkNode_window:
  assumes "Error (fst (checkNode net opts n)) = None"
  shows "let r = fst (checkNode net opts n); calls = snd (checkNode net opts n);
             w = sint (BlockHashCount opts); ep = net (Address n) in
           distinct (map fst (BlockHashes r)) \<and>
           int (length (BlockHashes r)) \<le> max 0 w \<and>
           (\<forall>k h. (k, h) \<in> set (BlockHashes r) \<longrightarrow>
              max 0 (uint (BlockNumber r) - w + 1) \<le> uint k \<and> k \<le> BlockNumber r) \<and>
           (\<forall>k. CallGetBlock k \<in> set calls \<longleftrightarrow>
              max 0 (uint (BlockNumber r) - w + 1) \<le> uint k \<and> k \<le> BlockNumber r) \<and>
           (\<forall>k. CallGetBlock k \<in> set calls \<longrightarrow>
              map_of (BlockHashes r) k =
                (case getBlockByNumber ep k of
                   CallFailed e \<Rightarrow> None
                 | RawNil \<Rightarrow> None
                 | UnmarshalFailed e \<Rightarrow> None
                 | NullResult \<Rightarrow> Some 0
                 | Header h \<Rightarrow> Some h)) \<and>
           (\<forall>answers.
              Error (fst (checkNode (net(Address n := ep\<lparr>getBlockByNumber := answers\<rparr>)) opts n)) =
              None)"
proof -
  let ?ep = "net (Address n)"
  let ?w = "sint (BlockHashCount opts)"
  let ?stored = "\<lambda>k. case getBlockByNumber ?ep k of
                   CallFailed e \<Rightarrow> None
                 | RawNil \<Rightarrow> None
                 | UnmarshalFailed e \<Rightarrow> None
                 | NullResult \<Rightarrow> Some 0
                 | Header h \<Rightarrow> Some h"
  have stored: "\<And>k. headerHash (getBlockByNumber ?ep k) = ?stored k"
    by (simp split: blockReply.splits)
  from assms obtain chainID bn where
    ok: "dial ?ep = None" "ethChainID ?ep = Inr chainID" "ethBlockNumber ?ep = Inr bn"
    by (auto simp: checkNode_def Let_def split: option.splits sum.splits)
  let ?init = "([] :: (uint64 \<times> hash) list, [DialContext (Address n), CallChainID, CallBlockNumber])"
  let ?st = "hashLoop ?ep ?w bn 0 ?init"
  have r: "BlockHashes (fst (checkNode net opts n)) = fst ?st"
    "BlockNumber (fst (checkNode net opts n)) = bn"
    using ok by (simp_all add: checkNode_def Let_def)
  have calls: "\<And>k. CallGetBlock k \<in> set (snd (checkNode net opts n)) \<longleftrightarrow>
      CallGetBlock k \<in> set (snd ?st)"
    using ok by (simp add: checkNode_def Let_def)
  have w: "?w \<le> 2 ^ 63"
    using sint_lt [of "BlockHashCount opts"] by simp
  have win: "\<And>k. (k \<le> bn \<and> int (unat bn - unat k) < ?w) \<longleftrightarrow>
      (max 0 (uint bn - ?w + 1) \<le> uint k \<and> k \<le> bn)"
    using window_iff [of _ bn ?w] by simp
  have m: "\<And>k. map_of (fst ?st) k =
      (if max 0 (uint bn - ?w + 1) \<le> uint k \<and> k \<le> bn
       then headerHash (getBlockByNumber ?ep k) else None)"
    using hashLoop_map_of [OF w, of ?ep bn 0 ?init] win by (auto split: option.splits)
  have c: "\<And>k. CallGetBlock k \<in> set (snd ?st) \<longleftrightarrow>
      (max 0 (uint bn - ?w + 1) \<le> uint k \<and> k \<le> bn)"
    using fetched_heights [OF w, of _ bn] win by (simp add: hashLoop_calls [OF w])
  have d: "distinct (map fst (fst ?st))"
    by (rule hashLoop_distinct) simp
  have l: "int (length (fst ?st)) \<le> max 0 ?w"
    using hashLoop_length [of ?ep ?w bn 0 ?init] by simp
  have keys: "\<And>k h. (k, h) \<in> set (fst ?st) \<Longrightarrow>
      max 0 (uint bn - ?w + 1) \<le> uint k \<and> k \<le> bn"
  proof -
    fix k h assume "(k, h) \<in> set (fst ?st)"
    then have "map_of (fst ?st) k = Some h" using d by simp
    then show "max 0 (uint bn - ?w + 1) \<le> uint k \<and> k \<le> bn"
      unfolding m by (simp split: if_splits)
  qed
  have any: "\<And>answers.
      Error (fst (checkNode (net(Address n := ?ep\<lparr>getBlockByNumber := answers\<rparr>)) opts n)) = None"
    using ok by (simp add: checkNode_def Let_def)
  have held: "\<And>k. max 0 (uint bn - ?w + 1) \<le> uint k \<and> k \<le> bn \<Longrightarrow>
      map_of (fst ?st) k = ?stored k"
    unfolding m stored by simp
  have first: "distinct (map fst (fst ?st)) \<and> int (length (fst ?st)) \<le> max 0 ?w \<and>
      (\<forall>k h. (k, h) \<in> set (fst ?st) \<longrightarrow> max 0 (uint bn - ?w + 1) \<le> uint k \<and> k \<le> bn) \<and>
      (\<forall>k. (max 0 (uint bn - ?w + 1) \<le> uint k \<and> k \<le> bn) \<longleftrightarrow>
         max 0 (uint bn - ?w + 1) \<le> uint k \<and> k \<le> bn) \<and>
      (\<forall>k. max 0 (uint bn - ?w + 1) \<le> uint k \<and> k \<le> bn \<longrightarrow>
         map_of (fst ?st) k = ?stored k)"
    using d l keys held by blast
  show ?thesis
    unfolding Let_def r calls c using first any by blast
qed

text \<open>The probe of \<open>a\<close>, whose call for block 2 fails: the probe goes on to blocks 1
  and 0, and height 2 is absent.\<close>

theorem checkNode_window_example:
  "Error (fst (checkNode exampleNet exampleOpts (exampleNode ''a'' ''http://a''))) = None \<and>
   BlockHashes (fst (checkNode exampleNet exampleOpts (exampleNode ''a'' ''http://a''))) =
     [(3, 103), (1, 101), (0, 100)] \<and>
   snd (checkNode exampleNet exampleOpts (exampleNode ''a'' ''http://a'')) =
     [DialContext ''http://a'', CallChainID, CallBlockNumber, CallGetBlock 3, CallGetBlock 2,
      CallGetBlock 1, CallGetBlock 0, CallTraceBlock 3, CloseClient] \<and>
   getBlockByNumber (exampleNet ''http://a'') 2 = CallFailed ''header not found'' \<and>
   (let r = fst (checkNode exampleNet exampleOpts (exampleNode ''a'' ''http://a''));
        calls = snd (checkNode exampleNet exampleOpts (exampleNode ''a'' ''http://a''));
        w = sint (BlockHashCount exampleOpts);
        ep = exampleNet (Address (exampleNode ''a'' ''http://a'')) in
      distinct (map fst (BlockHashes r)) \<and>
      int (length (BlockHashes r)) \<le> max 0 w \<and>
      (\<forall>k h. (k, h) \<in> set (BlockHashes r) \<longrightarrow>
         max 0 (uint (BlockNumber r) - w + 1) \<le> uint k \<and> k \<le> BlockNumber r) \<and>
      (\<forall>k. CallGetBlock k \<in> set calls \<longleftrightarrow>
         max 0 (uint (BlockNumber r) - w + 1) \<le> uint k \<and> k \<le> BlockNumber r) \<and>
      (\<forall>k. CallGetBlock k \<in> set calls \<longrightarrow>
         map_of (BlockHashes r) k =
           (case getBlockByNumber ep k of
              CallFailed e \<Rightarrow> None
            | RawNil \<Rightarrow> None
            | UnmarshalFailed e \<Rightarrow> None
            | NullResult \<Rightarrow> Some 0
            | Header h \<Rightarrow> Some h)) \<and>
      (\<forall>answers.
         Error (fst (checkNode
           (exampleNet(Address (exampleNode ''a'' ''http://a'') := ep\<lparr>getBlockByNumber := answers\<rparr>))
           exampleOpts (exampleNode ''a'' ''http://a''))) = None))"
proof -
  have ok: "Error (fst (checkNode exampleNet exampleOpts (exampleNode ''a'' ''http://a''))) = None"
    by (simp add: checkNode_def exampleNet_def goodEndpoint_def exampleNode_def Let_def)
  have v: "BlockHashes (fst (checkNode exampleNet exampleOpts (exampleNode ''a'' ''http://a''))) =
     [(3, 103), (1, 101), (0, 100)]"
    by code_simp
  have c: "snd (checkNode exampleNet exampleOpts (exampleNode ''a'' ''http://a'')) =
     [DialContext ''http://a'', CallChainID, CallBlockNumber, CallGetBlock 3, CallGetBlock 2,
      CallGetBlock 1, CallGetBlock 0, CallTraceBlock 3, CloseClient]"
    by code_simp
  have g: "getBlockByNumber (exampleNet ''http://a'') 2 = CallFailed ''header not found''"
    by (simp add: exampleNet_def goodEndpoint_def)
  show ?thesis
    using ok v c g checkNode_window [OF ok] by blast
qed

text \<open>C7. The bounds of the claim hold (\<open>checkNode_window\<close>): at most \<open>hashWindow\<close>
  entries, every key between \<open>max 0 (height - hashWindow + 1)\<close> and \<open>height\<close>, no target
  below zero, and no fetch is fatal. But a missing block does not leave its height
  absent. The node \<open>n\<close> is at height 3 and has no block 2: it answers \<^verbatim>\<open>null\<close>, which is
  no error and does not leave \<^verbatim>\<open>raw\<close> nil, so that the test of line 254 for a block
  that is not found does not hold; the probe is successful, fetches the heights 3, 2,
  1 and 0, and holds the zero hash at height 2.\<close>

theorem checkNode_missing_block:
  "getBlockByNumber (exampleNet ''http://n'') 2 = NullResult \<and>
   Error (fst (checkNode exampleNet exampleOpts (exampleNode ''n'' ''http://n''))) = None \<and>
   BlockNumber (fst (checkNode exampleNet exampleOpts (exampleNode ''n'' ''http://n''))) = 3 \<and>
   BlockHashes (fst (checkNode exampleNet exampleOpts (exampleNode ''n'' ''http://n''))) =
     [(3, 103), (2, 0), (1, 101), (0, 100)] \<and>
   map_of (BlockHashes (fst (checkNode exampleNet exampleOpts (exampleNode ''n'' ''http://n'')))) 2 =
     Some 0 \<and>
   snd (checkNode exampleNet exampleOpts (exampleNode ''n'' ''http://n'')) =
     [DialContext ''http://n'', CallChainID, CallBlockNumber, CallGetBlock 3, CallGetBlock 2,
      CallGetBlock 1, CallGetBlock 0, CallTraceBlock 3, CloseClient]"
proof -
  have g: "getBlockByNumber (exampleNet ''http://n'') 2 = NullResult"
    by (simp add: exampleNet_def goodEndpoint_def)
  have ok: "Error (fst (checkNode exampleNet exampleOpts (exampleNode ''n'' ''http://n''))) = None"
    "BlockNumber (fst (checkNode exampleNet exampleOpts (exampleNode ''n'' ''http://n''))) = 3"
    by (simp_all add: checkNode_def exampleNet_def goodEndpoint_def exampleNode_def Let_def)
  have v: "BlockHashes (fst (checkNode exampleNet exampleOpts (exampleNode ''n'' ''http://n''))) =
     [(3, 103), (2, 0), (1, 101), (0, 100)]"
    by code_simp
  have c: "snd (checkNode exampleNet exampleOpts (exampleNode ''n'' ''http://n'')) =
     [DialContext ''http://n'', CallChainID, CallBlockNumber, CallGetBlock 3, CallGetBlock 2,
      CallGetBlock 1, CallGetBlock 0, CallTraceBlock 3, CloseClient]"
    by code_simp
  show ?thesis using g ok v c by simp
qed

text \<open>C8, as the code has it. A probe fails exactly when the dial, the chain ID query
  or the block number query fails, and the first of these to fail ends it: no later
  query is made (the client is closed when the dial had succeeded), and the failed
  outcome has height 0, no block hashes and no trace capability. Its network identity
  is absent when the dial or the chain ID query failed; when the block number query
  failed it is the identity that was already fetched. An outcome without failure
  carries the identity and the height that the endpoint answered.\<close>

theorem checkNode_outcome:
  "let ep = net (Address n); r = fst (checkNode net opts n); calls = snd (checkNode net opts n) in
     ID r = ID n \<and> Chain r = Chain n \<and> Address r = Address n \<and>
     (Error r \<noteq> None \<longleftrightarrow> dial ep \<noteq> None \<or> isl (ethChainID ep) \<or> isl (ethBlockNumber ep)) \<and>
     (Error r \<noteq> None \<longrightarrow>
        BlockNumber r = 0 \<and> BlockHashes r = [] \<and> \<not> DebugOK r \<and>
        (\<forall>b. CallGetBlock b \<notin> set calls \<and> CallTraceBlock b \<notin> set calls)) \<and>
     (dial ep \<noteq> None \<longrightarrow>
        Error r = Some (''failed to connect: '' @ the (dial ep)) \<and> ChainID r = None \<and>
        calls = [DialContext (Address n)]) \<and>
     (dial ep = None \<and> isl (ethChainID ep) \<longrightarrow>
        Error r = Some (''failed to get chain ID: '' @ projl (ethChainID ep)) \<and>
        ChainID r = None \<and>
        calls = [DialContext (Address n), CallChainID, CloseClient]) \<and>
     (dial ep = None \<and> \<not> isl (ethChainID ep) \<and> isl (ethBlockNumber ep) \<longrightarrow>
        Error r = Some (''failed to get block number: '' @ projl (ethBlockNumber ep)) \<and>
        ChainID r = Some (projr (ethChainID ep)) \<and>
        calls = [DialContext (Address n), CallChainID, CallBlockNumber, CloseClient]) \<and>
     (Error r = None \<longrightarrow>
        ethChainID ep = Inr (the (ChainID r)) \<and> ChainID r \<noteq> None \<and>
        ethBlockNumber ep = Inr (BlockNumber r) \<and>
        DebugOK r = (CheckDebugMode opts \<longrightarrow> traceBlockByNumber ep (BlockNumber r) = None))"
  by (auto simp: checkNode_def Let_def split: option.splits sum.splits)

theorem checkNode_outcome_witness:
  "dial (exampleNet ''http://f'') = None \<and>
   \<not> isl (ethChainID (exampleNet ''http://f'')) \<and>
   isl (ethBlockNumber (exampleNet ''http://f'')) \<and>
   Error (fst (checkNode exampleNet exampleOpts (exampleNode ''f'' ''http://f''))) =
     Some ''failed to get block number: timeout'' \<and>
   ChainID (fst (checkNode exampleNet exampleOpts (exampleNode ''f'' ''http://f''))) = Some 1 \<and>
   BlockNumber (fst (checkNode exampleNet exampleOpts (exampleNode ''f'' ''http://f''))) = 0 \<and>
   BlockHashes (fst (checkNode exampleNet exampleOpts (exampleNode ''f'' ''http://f''))) = [] \<and>
   \<not> DebugOK (fst (checkNode exampleNet exampleOpts (exampleNode ''f'' ''http://f''))) \<and>
   snd (checkNode exampleNet exampleOpts (exampleNode ''f'' ''http://f'')) =
     [DialContext ''http://f'', CallChainID, CallBlockNumber, CloseClient]"
proof -
  have a: "Address (exampleNode ''f'' ''http://f'') = ''http://f''"
    by (simp add: exampleNode_def)
  have ep: "dial (exampleNet ''http://f'') = None"
    "\<not> isl (ethChainID (exampleNet ''http://f''))"
    "isl (ethBlockNumber (exampleNet ''http://f''))"
    "projl (ethBlockNumber (exampleNet ''http://f'')) = ''timeout''"
    "projr (ethChainID (exampleNet ''http://f'')) = 1"
    by (simp_all add: exampleNet_def goodEndpoint_def)
  show ?thesis
    using checkNode_outcome [of exampleNet "exampleNode ''f'' ''http://f''" exampleOpts] ep
    unfolding Let_def a by simp
qed

text \<open>The claim as the specification states it fails: the probe of \<open>f\<close>, whose block
  number query fails, ends in failure and still carries its network identity.\<close>

theorem checkNode_failed_with_chainID:
  "Error (fst (checkNode exampleNet exampleOpts (exampleNode ''f'' ''http://f''))) \<noteq> None \<and>
   ChainID (fst (checkNode exampleNet exampleOpts (exampleNode ''f'' ''http://f''))) = Some 1"
  by (simp add: checkNode_def exampleNet_def goodEndpoint_def exampleNode_def Let_def)

section \<open>The chain validation\<close>

lemma appendFailed_fields [simp]:
  "ChainName (appendFailed result f) = ChainName result"
  "Nodes (appendFailed result f) = Nodes result"
  "ExpectedChainID (appendFailed result f) = ExpectedChainID result"
  "MaxBlockNumber (appendFailed result f) = MaxBlockNumber result"
  "FailedNodes (appendFailed result f) = FailedNodes result @ [f]"
  "Passed (appendFailed result f) = False"
  by (simp_all add: appendFailed_def)

lemma failedNode_fields [simp]:
  "ID (failedNode node r) = ID node"
  "Chain (failedNode node r) = Chain node"
  "Address (failedNode node r) = Address node"
  "Reason (failedNode node r) = r"
  by (simp_all add: failedNode_def)

lemma ruleFailures_Nil [simp]: "ruleFailures opts baseline maxHeight [] = []"
  by (simp add: ruleFailures_def map_filter_simps)

lemma ruleFailures_Cons:
  "ruleFailures opts baseline maxHeight (node # rest) =
     (case firstRule opts baseline maxHeight node of
        None \<Rightarrow> ruleFailures opts baseline maxHeight rest
      | Some r \<Rightarrow> failedNode node r # ruleFailures opts baseline maxHeight rest)"
  by (simp add: ruleFailures_def map_filter_simps split: option.splits)

text \<open>The loop of lines 143-190 computes the classification of the specification, and
  does not panic, on nodes that have a chain ID whenever they have no error.\<close>

lemma validateNodes_ruleFailures:
  "\<forall>n \<in> set nodes. Error n = None \<longrightarrow> ChainID n \<noteq> None \<Longrightarrow>
   validateNodes opts result nodes =
     Inr (result\<lparr>FailedNodes := FailedNodes result @
                     ruleFailures opts (ExpectedChainID result) (MaxBlockNumber result) nodes,
                 Passed := Passed result \<and>
                     ruleFailures opts (ExpectedChainID result) (MaxBlockNumber result) nodes = []\<rparr>)"
proof (induction nodes arbitrary: result)
  case Nil
  then show ?case by simp
next
  case (Cons node rest)
  have IH: "\<And>result. validateNodes opts result rest =
     Inr (result\<lparr>FailedNodes := FailedNodes result @
                     ruleFailures opts (ExpectedChainID result) (MaxBlockNumber result) rest,
                 Passed := Passed result \<and>
                     ruleFailures opts (ExpectedChainID result) (MaxBlockNumber result) rest = []\<rparr>)"
    using Cons.prems by (intro Cons.IH) simp
  have cid: "Error node = None \<Longrightarrow> ChainID node \<noteq> None"
    using Cons.prems by simp
  show ?case
  proof (cases "Error node")
    case (Some err)
    then show ?thesis
      by (simp add: IH ruleFailures_Cons firstRule_def)
  next
    case None
    then obtain c where c: "ChainID node = Some c" using cid by blast
    show ?thesis
      using None c
      by (cases "ExpectedChainID result")
         (auto simp: IH ruleFailures_Cons firstRule_def chainIDDiffers_def)
  qed
qed

lemma findExpectedChainID_filter:
  "\<forall>n \<in> set nodes. Error n = None \<longrightarrow> ChainID n \<noteq> None \<Longrightarrow>
   findExpectedChainID nodes =
     (case filter (\<lambda>n. Error n = None) nodes of [] \<Rightarrow> None | n # rest \<Rightarrow> ChainID n)"
  by (induction nodes) auto

lemma Max_insert_max:
  "finite A \<Longrightarrow> Max (insert (max m b) A) = Max (insert m (insert b A))"
  for m :: "'a :: linorder"
  by (cases "A = {}") (simp_all add: max.assoc)

lemma findMaxBlockNumber_Max:
  "findMaxBlockNumber m nodes =
     Max (insert m (BlockNumber ` {n \<in> set nodes. Error n = None}))"
proof (induction nodes arbitrary: m)
  case Nil
  then show ?case by simp
next
  case (Cons node rest)
  let ?A = "BlockNumber ` {n \<in> set rest. Error n = None}"
  have fin: "finite ?A" by simp
  show ?case
  proof (cases "Error node = None")
    case False
    then have "{n \<in> set (node # rest). Error n = None} = {n \<in> set rest. Error n = None}"
      by auto
    then show ?thesis using False by (auto simp: Cons.IH)
  next
    case True
    then have s: "BlockNumber ` {n \<in> set (node # rest). Error n = None} =
        insert (BlockNumber node) ?A"
      by auto
    have mx: "(if BlockNumber node > m then BlockNumber node else m) = max m (BlockNumber node)"
      by (auto simp: max_def)
    have "findMaxBlockNumber m (node # rest) = findMaxBlockNumber (max m (BlockNumber node)) rest"
      using True mx by simp
    also have "\<dots> = Max (insert (max m (BlockNumber node)) ?A)"
      by (rule Cons.IH)
    also have "\<dots> = Max (insert m (insert (BlockNumber node) ?A))"
      using fin by (rule Max_insert_max)
    also have "\<dots> = Max (insert m (BlockNumber ` {n \<in> set (node # rest). Error n = None}))"
      by (simp only: s)
    finally show ?thesis .
  qed
qed


section \<open>The hash reconciliation\<close>

lemma mismatchNode_fields [simp]:
  "ID (mismatchNode nodes b h maj nodeID) = nodeID"
  "Chain (mismatchNode nodes b h maj nodeID) = snd (findNodeInfo nodes nodeID)"
  "Address (mismatchNode nodes b h maj nodeID) = fst (findNodeInfo nodes nodeID)"
  "Reason (mismatchNode nodes b h maj nodeID) = BlockHashMismatch b h maj"
  by (simp_all add: mismatchNode_def)

subsection \<open>The loops as lists of records\<close>

lemma reportNodeIDs_eq:
  "reportNodeIDs b h maj ids result =
     result\<lparr>FailedNodes := FailedNodes result @ map (mismatchNode (Nodes result) b h maj) ids,
            Passed := Passed result \<and> ids = []\<rparr>"
proof (induction ids arbitrary: result)
  case Nil
  then show ?case by simp
next
  case (Cons nodeID rest)
  show ?case by (simp add: Cons.IH appendFailed_def)
qed

lemma hashRecords_Nil [simp]: "hashRecords nodes b maj [] = []"
  by (simp add: hashRecords_def)

lemma hashRecords_Cons:
  "hashRecords nodes b maj ((h, ids) # rest) =
     (if h = maj then [] else map (mismatchNode nodes b h maj) ids) @ hashRecords nodes b maj rest"
  by (simp add: hashRecords_def)

lemma reportMismatches_eq:
  "reportMismatches b maj hm result =
     result\<lparr>FailedNodes := FailedNodes result @ hashRecords (Nodes result) b maj hm,
            Passed := Passed result \<and> hashRecords (Nodes result) b maj hm = []\<rparr>"
proof (induction hm arbitrary: result)
  case Nil
  then show ?case by simp
next
  case (Cons e rest)
  obtain h ids where e: "e = (h, ids)" by (cases e)
  show ?case
    unfolding e by (auto simp: Cons.IH reportNodeIDs_eq hashRecords_Cons)
qed

lemma checkBlocks_eq:
  "checkBlocks S blocks result =
     result\<lparr>FailedNodes := FailedNodes result @ concat (map (blockRecords S (Nodes result)) blocks),
            Passed := Passed result \<and> concat (map (blockRecords S (Nodes result)) blocks) = []\<rparr>"
proof (induction blocks arbitrary: result)
  case Nil
  then show ?case by simp
next
  case (Cons e rest)
  obtain b hm where e: "e = (b, hm)" by (cases e)
  show ?case
    unfolding e by (auto simp: Cons.IH reportMismatches_eq blockRecords_def)
qed

lemma checkBlockHashes_eq:
  "checkBlockHashes S result =
     result\<lparr>FailedNodes := FailedNodes result @ hashFailures S (Nodes result),
            Passed := Passed result \<and> hashFailures S (Nodes result) = []\<rparr>"
  by (simp add: checkBlockHashes_def checkBlocks_eq hashFailures_def)

lemma checkNode_chainID:
  "Error (fst (checkNode net opts n)) = None \<Longrightarrow> ChainID (fst (checkNode net opts n)) \<noteq> None"
  by (auto simp: checkNode_def Let_def split: option.splits sum.splits)

lemma checkNode_distinct: "distinct (map fst (BlockHashes (fst (checkNode net opts n))))"
  by (auto simp: checkNode_def Let_def hashLoop_distinct split: option.splits sum.splits)

text \<open>\<^verbatim>\<open>checkChain\<close> never panics, and this is its result.\<close>

lemma checkChain_eq:
  "checkChain S net opts chain nodes =
     Inr \<lparr>ChainName = chain,
          Nodes = map (\<lambda>n. fst (checkNode net opts n)) nodes,
          ExpectedChainID = findExpectedChainID (map (\<lambda>n. fst (checkNode net opts n)) nodes),
          MaxBlockNumber = findMaxBlockNumber 0 (map (\<lambda>n. fst (checkNode net opts n)) nodes),
          FailedNodes =
            ruleFailures opts
              (findExpectedChainID (map (\<lambda>n. fst (checkNode net opts n)) nodes))
              (findMaxBlockNumber 0 (map (\<lambda>n. fst (checkNode net opts n)) nodes))
              (map (\<lambda>n. fst (checkNode net opts n)) nodes) @
            hashFailures S (map (\<lambda>n. fst (checkNode net opts n)) nodes),
          Passed =
            (ruleFailures opts
              (findExpectedChainID (map (\<lambda>n. fst (checkNode net opts n)) nodes))
              (findMaxBlockNumber 0 (map (\<lambda>n. fst (checkNode net opts n)) nodes))
              (map (\<lambda>n. fst (checkNode net opts n)) nodes) = [] \<and>
             hashFailures S (map (\<lambda>n. fst (checkNode net opts n)) nodes) = [])\<rparr>"
proof -
  let ?probed = "map (\<lambda>n. fst (checkNode net opts n)) nodes"
  have "\<forall>n \<in> set ?probed. Error n = None \<longrightarrow> ChainID n \<noteq> None"
    using checkNode_chainID by auto
  then show ?thesis
    by (simp add: checkChain_def Let_def validateNodes_ruleFailures checkBlockHashes_eq)
qed

subsection \<open>The map from block number and hash to node IDs\<close>

lemma lookup2_addNodeHash:
  "lookup2 (addNodeHash nodeID e m) b h =
     lookup2 m b h @ (if e = (b, h) then [nodeID] else [])"
  by (cases e) (auto simp: lookup2_def addNodeHash_def Let_def update_conv' split: option.splits)

lemma set_update_subset: "set (AList.update k v al) \<subseteq> insert (k, v) (set al)"
  by (induction al) auto

lemma wellFormed_addNodeHash:
  assumes "wellFormed m"
  shows "wellFormed (addNodeHash nodeID e m)"
proof -
  let ?hm = "case map_of m (fst e) of None \<Rightarrow> [] | Some hm \<Rightarrow> hm"
  let ?ids = "case map_of ?hm (snd e) of None \<Rightarrow> [] | Some l \<Rightarrow> l"
  let ?hm' = "AList.update (snd e) (?ids @ [nodeID]) ?hm"
  have old: "distinct (map fst ?hm) \<and> (\<forall>s \<in> set ?hm. snd s \<noteq> [])"
  proof (cases "map_of m (fst e)")
    case None
    then show ?thesis by simp
  next
    case (Some hm)
    then have "(fst e, hm) \<in> set m" by (rule map_of_SomeD)
    then show ?thesis using assms Some by (auto simp: wellFormed_def)
  qed
  have "\<And>s. s \<in> set ?hm' \<Longrightarrow> snd s \<noteq> []"
  proof -
    fix s assume "s \<in> set ?hm'"
    then have "s = (snd e, ?ids @ [nodeID]) \<or> s \<in> set ?hm"
      using set_update_subset [of "snd e" "?ids @ [nodeID]" ?hm] by blast
    then show "snd s \<noteq> []"
    proof
      assume "s = (snd e, ?ids @ [nodeID])"
      then show ?thesis by simp
    next
      assume "s \<in> set ?hm"
      then show ?thesis using old by blast
    qed
  qed
  then have new: "distinct (map fst ?hm') \<and> (\<forall>s \<in> set ?hm'. snd s \<noteq> [])"
    using old by (simp add: distinct_update)
  have sub: "set (AList.update (fst e) ?hm' m) \<subseteq> insert (fst e, ?hm') (set m)"
    by (rule set_update_subset)
  have oldm: "\<forall>x \<in> set m. distinct (map fst (snd x)) \<and> (\<forall>s \<in> set (snd x). snd s \<noteq> [])"
    using assms by (simp add: wellFormed_def)
  have "\<And>x. x \<in> set (AList.update (fst e) ?hm' m) \<Longrightarrow>
      distinct (map fst (snd x)) \<and> (\<forall>s \<in> set (snd x). snd s \<noteq> [])"
  proof -
    fix x assume "x \<in> set (AList.update (fst e) ?hm' m)"
    then have "x = (fst e, ?hm') \<or> x \<in> set m" using sub by blast
    then show "distinct (map fst (snd x)) \<and> (\<forall>s \<in> set (snd x). snd s \<noteq> [])"
    proof
      assume x: "x = (fst e, ?hm')"
      show ?thesis unfolding x snd_conv by (rule new)
    next
      assume "x \<in> set m"
      then show ?thesis using oldm by blast
    qed
  qed
  then have "\<forall>x \<in> set (AList.update (fst e) ?hm' m).
      distinct (map fst (snd x)) \<and> (\<forall>s \<in> set (snd x). snd s \<noteq> [])"
    by blast
  moreover have "distinct (map fst (AList.update (fst e) ?hm' m))"
    using assms by (simp add: wellFormed_def distinct_update)
  ultimately show ?thesis
    by (simp add: wellFormed_def addNodeHash_def Let_def)
qed

lemma lookup2_addNodeHashes:
  "distinct (map fst es) \<Longrightarrow>
   lookup2 (addNodeHashes nodeID es m) b h =
     lookup2 m b h @ (if (b, h) \<in> set es then [nodeID] else [])"
proof (induction es arbitrary: m)
  case Nil
  then show ?case by simp
next
  case (Cons e es)
  have "e = (b, h) \<Longrightarrow> (b, h) \<notin> set es"
    using Cons.prems by (auto simp: image_iff)
  then show ?case
    using Cons.prems by (auto simp: Cons.IH lookup2_addNodeHash)
qed

lemma wellFormed_addNodeHashes:
  "wellFormed m \<Longrightarrow> wellFormed (addNodeHashes nodeID es m)"
  by (induction es arbitrary: m) (simp_all add: wellFormed_addNodeHash)

lemma reporters_Nil [simp]: "reporters [] b h = []"
  by (simp add: reporters_def)

lemma reporters_Cons:
  "reporters (n # rest) b h =
     (if Error n = None \<and> map_of (BlockHashes n) b = Some h then [ID n] else []) @
     reporters rest b h"
  by (simp add: reporters_def)

lemma range_distinct_keys:
  "mset es' = mset es \<Longrightarrow> distinct (map fst es) \<Longrightarrow> distinct (map fst es')"
proof -
  assume m: "mset es' = mset es" and d: "distinct (map fst es)"
  from m have "mset (map fst es') = mset (map fst es)" by simp
  then show ?thesis using d mset_eq_imp_distinct_iff by blast
qed

lemma lookup2_collectHashes:
  assumes "\<forall>m. mset (rangeBlockHashes S m) = mset m"
    and "\<forall>n \<in> set nodes. distinct (map fst (BlockHashes n))"
  shows "lookup2 (collectHashes S nodes m) b h = lookup2 m b h @ reporters nodes b h"
  using assms(2)
proof (induction nodes arbitrary: m)
  case Nil
  then show ?case by simp
next
  case (Cons node rest)
  let ?es = "rangeBlockHashes S (BlockHashes node)"
  have ms: "mset ?es = mset (BlockHashes node)" using assms(1) by simp
  have d0: "distinct (map fst (BlockHashes node))" using Cons.prems by simp
  have d: "distinct (map fst ?es)" using ms d0 by (rule range_distinct_keys)
  have "set ?es = set (BlockHashes node)" using ms by (rule mset_eq_setD)
  then have mem: "(b, h) \<in> set ?es \<longleftrightarrow> map_of (BlockHashes node) b = Some h"
    using d0 by simp
  have IH: "\<And>m. lookup2 (collectHashes S rest m) b h = lookup2 m b h @ reporters rest b h"
    using Cons.prems by (intro Cons.IH) simp
  show ?case
    using mem by (auto simp: IH reporters_Cons lookup2_addNodeHashes [OF d])
qed

lemma wellFormed_collectHashes:
  "wellFormed m \<Longrightarrow> wellFormed (collectHashes S nodes m)"
  by (induction nodes arbitrary: m) (simp_all add: wellFormed_addNodeHashes)

lemma wellFormed_Nil [simp]: "wellFormed []"
  by (simp add: wellFormed_def)

lemma lookup2_Nil [simp]: "lookup2 [] b h = []"
  by (simp add: lookup2_def)

text \<open>The inner map of a block number holds, under each hash that some node without
  failure reports at that height, the IDs of the nodes that report it.\<close>

lemma collected_inner:
  assumes "\<forall>m. mset (rangeBlockHashes S m) = mset m"
    and "\<forall>n \<in> set nodes. distinct (map fst (BlockHashes n))"
    and "map_of (collectHashes S nodes []) b = Some hm"
  shows "distinct (map fst hm)"
    and "map_of hm h = (if reporters nodes b h = [] then None else Some (reporters nodes b h))"
proof -
  let ?M = "collectHashes S nodes []"
  have wf: "wellFormed ?M" by (rule wellFormed_collectHashes) simp
  have mem: "(b, hm) \<in> set ?M" using assms(3) by (rule map_of_SomeD)
  have inner: "distinct (map fst (snd (b, hm))) \<and> (\<forall>s \<in> set (snd (b, hm)). snd s \<noteq> [])"
    using wf mem unfolding wellFormed_def by blast
  show d: "distinct (map fst hm)" using inner by simp
  have slices: "\<forall>s \<in> set hm. snd s \<noteq> []" using inner by simp
  have ne: "\<And>ids. map_of hm h = Some ids \<Longrightarrow> ids \<noteq> []"
  proof -
    fix ids assume "map_of hm h = Some ids"
    then have "(h, ids) \<in> set hm" by (rule map_of_SomeD)
    then have "snd (h, ids) \<noteq> []" using slices by blast
    then show "ids \<noteq> []" by simp
  qed
  have "lookup2 ?M b h = reporters nodes b h"
    using lookup2_collectHashes [OF assms(1,2), of "[]" b h] by simp
  then have "(case map_of hm h of None \<Rightarrow> [] | Some ids \<Rightarrow> ids) = reporters nodes b h"
    using assms(3) by (simp add: lookup2_def)
  then show "map_of hm h = (if reporters nodes b h = [] then None else Some (reporters nodes b h))"
    using ne by (cases "map_of hm h") auto
qed

lemma collected_none:
  assumes "\<forall>m. mset (rangeBlockHashes S m) = mset m"
    and "\<forall>n \<in> set nodes. distinct (map fst (BlockHashes n))"
    and "map_of (collectHashes S nodes []) b = None"
  shows "reporters nodes b h = []"
proof -
  have "lookup2 (collectHashes S nodes []) b h = reporters nodes b h"
    using lookup2_collectHashes [OF assms(1,2), of "[]" b h] by simp
  then show ?thesis using assms(3) by (simp add: lookup2_def)
qed


section \<open>The result of a chain\<close>

lemma checkChain_returns: "\<exists>r. checkChain S net opts chain nodes = Inr r"
  by (simp add: checkChain_eq)

lemma checkChain_fields:
  assumes "checkChain S net opts chain nodes = Inr r"
  shows "Nodes r = map (\<lambda>n. fst (checkNode net opts n)) nodes"
    and "ExpectedChainID r = findExpectedChainID (Nodes r)"
    and "MaxBlockNumber r = findMaxBlockNumber 0 (Nodes r)"
    and "FailedNodes r =
           ruleFailures opts (ExpectedChainID r) (MaxBlockNumber r) (Nodes r) @
           hashFailures S (Nodes r)"
    and "Passed r \<longleftrightarrow> FailedNodes r = []"
    and "ChainName r = chain"
  using assms unfolding checkChain_eq by auto

lemma probed_chainID:
  assumes "checkChain S net opts chain nodes = Inr r" and "n \<in> set (Nodes r)"
    and "Error n = None"
  shows "ChainID n \<noteq> None"
  using assms checkNode_chainID unfolding checkChain_fields(1) [OF assms(1)] by auto

lemma probed_distinct:
  assumes "checkChain S net opts chain nodes = Inr r"
  shows "\<forall>n \<in> set (Nodes r). distinct (map fst (BlockHashes n))"
  using checkNode_distinct unfolding checkChain_fields(1) [OF assms] by auto

lemma ruleFailures_member:
  "f \<in> set (ruleFailures opts baseline maxHeight nodes) \<longleftrightarrow>
   (\<exists>n \<in> set nodes. \<exists>r. firstRule opts baseline maxHeight n = Some r \<and> f = failedNode n r)"
  by (induction nodes) (auto simp: ruleFailures_Cons split: option.splits)

lemma firstRule_not_mismatch:
  "firstRule opts baseline maxHeight n = Some r \<Longrightarrow> mismatchHeight r = None"
  by (auto simp: firstRule_def split: if_splits)

lemma ruleFailures_not_mismatch:
  "f \<in> set (ruleFailures opts baseline maxHeight nodes) \<Longrightarrow> mismatchHeight (Reason f) = None"
  by (auto simp: ruleFailures_member firstRule_not_mismatch)

lemma hashRecords_height:
  "f \<in> set (hashRecords nodes b maj hm) \<Longrightarrow> \<exists>h. Reason f = BlockHashMismatch b h maj"
  by (induction hm) (auto simp: hashRecords_Cons split: if_splits)

lemma blockRecords_height:
  "f \<in> set (blockRecords S nodes e) \<Longrightarrow> mismatchHeight (Reason f) = Some (fst e)"
  by (auto simp: blockRecords_def split: if_splits dest: hashRecords_height)

lemma hashFailures_mismatch:
  "f \<in> set (hashFailures S nodes) \<Longrightarrow> mismatchHeight (Reason f) \<noteq> None"
  by (auto simp: hashFailures_def dest: blockRecords_height)

text \<open>C3. The maximum block number of a chain is the greatest height among the nodes
  without failure, and 0 when there is none; the expected chain ID is the network
  identity of the first node, in input order, without failure, and every such node has
  one; when every node failed, the maximum is 0, the expected chain ID is absent and no
  record is a chain ID mismatch.\<close>

theorem checkChain_baselines:
  assumes "checkChain S net opts chain nodes = Inr r"
  shows "Nodes r = map (\<lambda>n. fst (checkNode net opts n)) nodes \<and>
         MaxBlockNumber r = Max (insert 0 (BlockNumber ` {n \<in> set (Nodes r). Error n = None})) \<and>
         ExpectedChainID r =
           (case filter (\<lambda>n. Error n = None) (Nodes r) of [] \<Rightarrow> None | n # rest \<Rightarrow> ChainID n) \<and>
         (\<forall>n \<in> set (Nodes r). Error n = None \<longrightarrow> ChainID n \<noteq> None) \<and>
         ((\<forall>n \<in> set (Nodes r). Error n \<noteq> None) \<longrightarrow>
            MaxBlockNumber r = 0 \<and> ExpectedChainID r = None \<and>
            (\<forall>f \<in> set (FailedNodes r). \<forall>x y. Reason f \<noteq> ChainIDMismatch x y))"
proof -
  note f = checkChain_fields [OF assms]
  have cid: "\<forall>n \<in> set (Nodes r). Error n = None \<longrightarrow> ChainID n \<noteq> None"
    using probed_chainID [OF assms] by blast
  have mx: "MaxBlockNumber r = Max (insert 0 (BlockNumber ` {n \<in> set (Nodes r). Error n = None}))"
    unfolding f(3) by (rule findMaxBlockNumber_Max)
  have ex: "ExpectedChainID r =
      (case filter (\<lambda>n. Error n = None) (Nodes r) of [] \<Rightarrow> None | n # rest \<Rightarrow> ChainID n)"
    unfolding f(2) using cid by (rule findExpectedChainID_filter)
  have none: "MaxBlockNumber r = 0 \<and> ExpectedChainID r = None \<and>
      (\<forall>f \<in> set (FailedNodes r). \<forall>x y. Reason f \<noteq> ChainIDMismatch x y)"
    if failed: "\<forall>n \<in> set (Nodes r). Error n \<noteq> None"
  proof -
    from failed have e: "{n \<in> set (Nodes r). Error n = None} = {}"
      and fl: "filter (\<lambda>n. Error n = None) (Nodes r) = []"
      by (auto simp: filter_empty_conv)
    have m0: "MaxBlockNumber r = 0" unfolding mx e by simp
    have e0: "ExpectedChainID r = None" unfolding ex fl by simp
    have "Reason g \<noteq> ChainIDMismatch x y" if g: "g \<in> set (FailedNodes r)" for g x y
    proof -
      from g consider (rule) "g \<in> set (ruleFailures opts None 0 (Nodes r))"
        | (hash) "g \<in> set (hashFailures S (Nodes r))"
        unfolding f(4) m0 e0 by auto
      then show ?thesis
      proof cases
        case rule
        then show ?thesis
          by (auto simp: ruleFailures_member firstRule_def split: if_splits)
      next
        case hash
        then show ?thesis using hashFailures_mismatch by fastforce
      qed
    qed
    then show ?thesis using m0 e0 by blast
  qed
  show ?thesis using f(1) mx ex cid none by blast
qed

theorem checkChain_baselines_witness:
  "checkChain inOrder exampleNet exampleOpts ''sepolia''
     [exampleNode ''d'' ''http://d'', exampleNode ''f'' ''http://f''] =
   Inr \<lparr>ChainName = ''sepolia'',
        Nodes =
          [\<lparr>ID = ''d'', Chain = ''sepolia'', Address = ''http://d'', ChainID = None,
            BlockNumber = 0, BlockHashes = [], DebugOK = False,
            Error = Some ''failed to connect: connection refused''\<rparr>,
           \<lparr>ID = ''f'', Chain = ''sepolia'', Address = ''http://f'', ChainID = Some 1,
            BlockNumber = 0, BlockHashes = [], DebugOK = False,
            Error = Some ''failed to get block number: timeout''\<rparr>],
        ExpectedChainID = None, MaxBlockNumber = 0,
        FailedNodes =
          [\<lparr>ID = ''d'', Chain = ''sepolia'', Address = ''http://d'',
            Reason = ConnectionError ''failed to connect: connection refused''\<rparr>,
           \<lparr>ID = ''f'', Chain = ''sepolia'', Address = ''http://f'',
            Reason = ConnectionError ''failed to get block number: timeout''\<rparr>],
        Passed = False\<rparr> \<and>
   Max (insert 0 (BlockNumber ` {n \<in> set
          [\<lparr>ID = ''d'', Chain = ''sepolia'', Address = ''http://d'', ChainID = None,
            BlockNumber = 0, BlockHashes = [], DebugOK = False,
            Error = Some ''failed to connect: connection refused''\<rparr>,
           \<lparr>ID = ''f'', Chain = ''sepolia'', Address = ''http://f'', ChainID = Some 1,
            BlockNumber = 0, BlockHashes = [], DebugOK = False,
            Error = Some ''failed to get block number: timeout''\<rparr>]. Error n = None})) = 0"
proof -
  let ?r = "\<lparr>ChainName = ''sepolia'',
        Nodes =
          [\<lparr>ID = ''d'', Chain = ''sepolia'', Address = ''http://d'', ChainID = None,
            BlockNumber = 0, BlockHashes = [], DebugOK = False,
            Error = Some ''failed to connect: connection refused''\<rparr>,
           \<lparr>ID = ''f'', Chain = ''sepolia'', Address = ''http://f'', ChainID = Some 1,
            BlockNumber = 0, BlockHashes = [], DebugOK = False,
            Error = Some ''failed to get block number: timeout''\<rparr>],
        ExpectedChainID = None, MaxBlockNumber = 0,
        FailedNodes =
          [\<lparr>ID = ''d'', Chain = ''sepolia'', Address = ''http://d'',
            Reason = ConnectionError ''failed to connect: connection refused''\<rparr>,
           \<lparr>ID = ''f'', Chain = ''sepolia'', Address = ''http://f'',
            Reason = ConnectionError ''failed to get block number: timeout''\<rparr>],
        Passed = False\<rparr>"
  have e: "checkChain inOrder exampleNet exampleOpts ''sepolia''
     [exampleNode ''d'' ''http://d'', exampleNode ''f'' ''http://f''] = Inr ?r"
    by code_simp
  have "MaxBlockNumber ?r = Max (insert 0 (BlockNumber ` {n \<in> set (Nodes ?r). Error n = None}))"
    using checkChain_baselines [OF e] by blast
  then show ?thesis using e by simp
qed

text \<open>C5. A chain has passed exactly when it has no failure record at all, of
  either kind; so one hash-mismatch record makes it fail, also when no node failed a
  rule.\<close>

theorem checkChain_passed:
  assumes "checkChain S net opts chain nodes = Inr r"
  shows "(Passed r \<longleftrightarrow> FailedNodes r = []) \<and>
         (\<forall>f \<in> set (FailedNodes r).
            mismatchHeight (Reason f) = None \<longleftrightarrow>
            f \<in> set (ruleFailures opts (ExpectedChainID r) (MaxBlockNumber r) (Nodes r))) \<and>
         ((\<exists>f \<in> set (FailedNodes r). mismatchHeight (Reason f) \<noteq> None) \<longrightarrow> \<not> Passed r)"
proof -
  note f = checkChain_fields [OF assms]
  have "mismatchHeight (Reason g) = None \<longleftrightarrow>
      g \<in> set (ruleFailures opts (ExpectedChainID r) (MaxBlockNumber r) (Nodes r))"
    if "g \<in> set (FailedNodes r)" for g
    using that unfolding f(4)
    by (auto simp: ruleFailures_not_mismatch dest: hashFailures_mismatch)
  then show ?thesis using f(5) by auto
qed

theorem checkChain_passed_witness:
  "checkChain inOrder exampleNet exampleOpts ''sepolia''
     [exampleNode ''a'' ''http://a'', exampleNode ''b'' ''http://b'', exampleNode ''c'' ''http://c''] =
   Inr \<lparr>ChainName = ''sepolia'', Nodes = exampleProbed,
        ExpectedChainID = Some 1, MaxBlockNumber = 3,
        FailedNodes =
          [\<lparr>ID = ''b'', Chain = ''sepolia'', Address = ''http://b'',
            Reason = BlockHashMismatch 3 7 103\<rparr>],
        Passed = False\<rparr> \<and>
   ruleFailures exampleOpts (Some 1) 3 exampleProbed = []"
proof -
  let ?b = "\<lparr>ID = ''b'', Chain = ''sepolia'', Address = ''http://b'',
            Reason = BlockHashMismatch 3 7 103\<rparr>"
  let ?r = "\<lparr>ChainName = ''sepolia'', Nodes = exampleProbed, ExpectedChainID = Some 1,
        MaxBlockNumber = 3, FailedNodes = [?b], Passed = False\<rparr>"
  have e: "checkChain inOrder exampleNet exampleOpts ''sepolia''
     [exampleNode ''a'' ''http://a'', exampleNode ''b'' ''http://b'', exampleNode ''c'' ''http://c''] =
     Inr ?r"
    by code_simp
  have "\<forall>f \<in> set (FailedNodes ?r). mismatchHeight (Reason f) = None \<longleftrightarrow>
      f \<in> set (ruleFailures exampleOpts (ExpectedChainID ?r) (MaxBlockNumber ?r) (Nodes ?r))"
    using checkChain_passed [OF e] by blast
  then have "?b \<notin> set (ruleFailures exampleOpts (Some 1) 3 exampleProbed)"
    by simp
  moreover have "\<forall>f \<in> set (ruleFailures exampleOpts (Some 1) 3 exampleProbed). f \<in> set (FailedNodes ?r)"
    using checkChain_fields(4) [OF e] by simp
  ultimately have "ruleFailures exampleOpts (Some 1) 3 exampleProbed = []"
    by (cases "ruleFailures exampleOpts (Some 1) 3 exampleProbed") auto
  then show ?thesis using e by simp
qed

section \<open>The majority vote\<close>

text \<open>A hash with more reporters than every other hash is the majority, in whatever
  order the map is visited.\<close>

lemma findMajority_unique:
  assumes "\<forall>e \<in> set xs. fst e = g \<or> length (snd e) < L"
    and "(cur = g \<and> L \<le> mc) \<or> (mc < L \<and> (\<exists>G. (g, G) \<in> set xs \<and> length G = L))"
  shows "findMajority xs cur mc = g"
  using assms
proof (induction xs arbitrary: cur mc)
  case Nil
  then show ?case by auto
next
  case (Cons e rest)
  obtain k l where e: "e = (k, l)" by (cases e)
  have others: "\<forall>e \<in> set rest. fst e = g \<or> length (snd e) < L"
    using Cons.prems(1) by simp
  have kl: "k = g \<or> length l < L" using Cons.prems(1) e by simp
  show ?case
  proof (cases "length l > mc")
    case True
    have "(k = g \<and> L \<le> length l) \<or> (length l < L \<and> (\<exists>G. (g, G) \<in> set rest \<and> length G = L))"
      using Cons.prems(2) kl True e by auto
    then have "findMajority rest k (length l) = g"
      using others by (intro Cons.IH) auto
    then show ?thesis using True e by simp
  next
    case False
    have "(cur = g \<and> L \<le> mc) \<or> (mc < L \<and> (\<exists>G. (g, G) \<in> set rest \<and> length G = L))"
      using Cons.prems(2) False e by auto
    then have "findMajority rest cur mc = g"
      using others by (intro Cons.IH) auto
    then show ?thesis using False e by simp
  qed
qed

lemma mset_hashRecords:
  "mset hm' = mset hm \<Longrightarrow> mset (hashRecords nodes b maj hm') = mset (hashRecords nodes b maj hm)"
proof -
  assume m: "mset hm' = mset hm"
  let ?F = "\<lambda>e. mset (case e of (h, ids) \<Rightarrow>
      if h = maj then [] else map (mismatchNode nodes b h maj) ids)"
  have "\<And>xs. mset (hashRecords nodes b maj xs) = sum_mset (image_mset ?F (mset xs))"
    by (simp add: hashRecords_def mset_concat comp_def flip: sum_mset_sum_list)
  then show ?thesis using m by simp
qed

lemma length_le_one:
  assumes "distinct xs" and "\<forall>x \<in> set xs. \<forall>y \<in> set xs. x = y"
  shows "length xs \<le> 1"
proof (cases xs)
  case Nil
  then show ?thesis by simp
next
  case (Cons x rest)
  have "rest = []"
  proof (rule ccontr)
    assume "rest \<noteq> []"
    then have y: "hd rest \<in> set rest" by (rule hd_in_set)
    then have "x \<noteq> hd rest" using assms(1) Cons by fastforce
    moreover have "x = hd rest" using assms(2) Cons y by simp
    ultimately show False by simp
  qed
  then show ?thesis using Cons by simp
qed

lemma reporters_empty_iff:
  "reporters nodes b h = [] \<longleftrightarrow>
   (\<forall>n \<in> set nodes. \<not> (Error n = None \<and> map_of (BlockHashes n) b = Some h))"
  by (simp add: reporters_def filter_empty_conv)

subsection \<open>The records of one height\<close>

lemma filter_height_blocks:
  "distinct (map fst xs) \<Longrightarrow>
   filter (\<lambda>f. mismatchHeight (Reason f) = Some b) (concat (map (blockRecords S nodes) xs)) =
     (case map_of xs b of None \<Rightarrow> [] | Some hm \<Rightarrow> blockRecords S nodes (b, hm))"
proof (induction xs)
  case Nil
  then show ?case by simp
next
  case (Cons e rest)
  obtain b' hm' where e: "e = (b', hm')" by (cases e)
  have IH: "filter (\<lambda>f. mismatchHeight (Reason f) = Some b)
      (concat (map (blockRecords S nodes) rest)) =
     (case map_of rest b of None \<Rightarrow> [] | Some hm \<Rightarrow> blockRecords S nodes (b, hm))"
    using Cons.prems by (intro Cons.IH) simp
  have here: "filter (\<lambda>f. mismatchHeight (Reason f) = Some b) (blockRecords S nodes (b', hm')) =
      (if b' = b then blockRecords S nodes (b', hm') else [])"
    using blockRecords_height [of _ S nodes "(b', hm')"]
    by (auto simp: filter_empty_conv intro!: filter_True)
  show ?case
  proof (cases "b' = b")
    case True
    then have "b \<notin> fst ` set rest" using Cons.prems e by auto
    then have "map_of rest b = None" by (simp add: map_of_eq_None_iff)
    then show ?thesis using True e IH here by simp
  next
    case False
    then show ?thesis using e IH here by simp
  qed
qed

lemma hashFailures_at_height:
  assumes "validSchedule S"
  shows "filter (\<lambda>f. mismatchHeight (Reason f) = Some b) (hashFailures S nodes) =
     (case map_of (collectHashes S nodes []) b of
        None \<Rightarrow> []
      | Some hm \<Rightarrow> blockRecords S nodes (b, hm))"
proof -
  let ?M = "collectHashes S nodes []"
  let ?B = "rangeBlockHashNodes S ?M"
  have ms: "mset ?B = mset ?M" using assms by (simp add: validSchedule_def)
  have "wellFormed ?M" by (rule wellFormed_collectHashes) simp
  then have dM: "distinct (map fst ?M)" by (simp add: wellFormed_def)
  have dB: "distinct (map fst ?B)" using ms dM by (rule range_distinct_keys)
  have "set ?B = set ?M" using ms by (rule mset_eq_setD)
  then have "map_of ?B = map_of ?M" using dB dM by (simp add: map_of_inject_set)
  then show ?thesis
    unfolding hashFailures_def filter_height_blocks [OF dB] by simp
qed

lemma blockRecords_unanimous:
  assumes "validSchedule S"
    and "\<forall>n \<in> set nodes. distinct (map fst (BlockHashes n))"
    and "map_of (collectHashes S nodes []) b = Some hm"
    and "\<forall>h h'. reporters nodes b h \<noteq> [] \<and> reporters nodes b h' \<noteq> [] \<longrightarrow> h = h'"
  shows "blockRecords S nodes (b, hm) = []"
proof -
  have v: "\<forall>m. mset (rangeBlockHashes S m) = mset m"
    using assms(1) by (simp add: validSchedule_def)
  note inner = collected_inner [OF v assms(2,3)]
  have "reporters nodes b k \<noteq> []" if "k \<in> set (map fst hm)" for k
  proof -
    from that obtain ids where "(k, ids) \<in> set hm" by auto
    then have "map_of hm k = Some ids" using inner(1) by simp
    then show ?thesis using inner(2) [of k] by (auto split: if_splits)
  qed
  then have "\<forall>x \<in> set (map fst hm). \<forall>y \<in> set (map fst hm). x = y"
    using assms(4) by blast
  with inner(1) have "length (map fst hm) \<le> 1" by (rule length_le_one)
  then show ?thesis by (simp add: blockRecords_def)
qed

lemma blockRecords_one_dissenter:
  assumes "validSchedule S"
    and "\<forall>n \<in> set nodes. distinct (map fst (BlockHashes n))"
    and "map_of (collectHashes S nodes []) b = Some hm"
    and "reporters nodes b h = [x]"
    and "2 \<le> length (reporters nodes b g)"
    and "h \<noteq> g"
    and "\<forall>k. k \<noteq> h \<and> k \<noteq> g \<longrightarrow> reporters nodes b k = []"
  shows "blockRecords S nodes (b, hm) = [mismatchNode nodes b h g x]"
proof -
  let ?G = "reporters nodes b g"
  have v: "\<forall>m. mset (rangeBlockHashes S m) = mset m"
    and vm: "mset (rangeMajority S b hm) = mset hm"
    and vr: "mset (rangeReport S b hm) = mset hm"
    using assms(1) by (simp_all add: validSchedule_def)
  note inner = collected_inner [OF v assms(2,3)]
  have G: "?G \<noteq> []" using assms(5) by auto
  have "(k, ids) \<in> set hm \<longleftrightarrow> (k, ids) \<in> set [(g, ?G), (h, [x])]" for k ids
  proof -
    have "(k, ids) \<in> set hm \<longleftrightarrow> map_of hm k = Some ids" using inner(1) by simp
    also have "\<dots> \<longleftrightarrow> (k = g \<and> ids = ?G) \<or> (k = h \<and> ids = [x])"
      unfolding inner(2) [of k] using assms(4,6,7) G by (cases "k = g"; cases "k = h") auto
    finally show ?thesis by auto
  qed
  then have "set hm = set [(g, ?G), (h, [x])]" by (intro set_eqI) (simp only: split_paired_all)
  moreover have "distinct hm" using inner(1) by (rule distinct_map [THEN iffD1, THEN conjunct1])
  moreover have "distinct [(g, ?G), (h, [x])]" using assms(6) by simp
  ultimately have ms: "mset hm = mset [(g, ?G), (h, [x])]"
    by (simp only: set_eq_iff_mset_eq_distinct)
  then have len: "length hm = 2" using mset_eq_length by fastforce
  have sm: "set (rangeMajority S b hm) = {(g, ?G), (h, [x])}"
    using mset_eq_setD [OF vm] mset_eq_setD [OF ms] by simp
  have maj: "findMajority (rangeMajority S b hm) 0 0 = g"
  proof (rule findMajority_unique [where L = "length ?G"])
    show "\<forall>e \<in> set (rangeMajority S b hm). fst e = g \<or> length (snd e) < length ?G"
      unfolding sm using assms(5) by auto
    show "(0 = g \<and> length ?G \<le> 0) \<or>
        (0 < length ?G \<and> (\<exists>G. (g, G) \<in> set (rangeMajority S b hm) \<and> length G = length ?G))"
      unfolding sm using G by auto
  qed
  have "mset (hashRecords nodes b g (rangeReport S b hm)) =
      mset (hashRecords nodes b g [(g, ?G), (h, [x])])"
    using vr ms by (intro mset_hashRecords) simp
  also have "\<dots> = {#mismatchNode nodes b h g x#}"
    using assms(6) by (simp add: hashRecords_Cons)
  finally have "hashRecords nodes b g (rangeReport S b hm) = [mismatchNode nodes b h g x]"
    by simp
  then show ?thesis using len maj by (simp add: blockRecords_def)
qed

lemma filter_reporters:
  "map ID (filter (\<lambda>n. Error n = None \<and> map_of (BlockHashes n) b = Some h) nodes) =
   reporters nodes b h"
  by (simp add: reporters_def)

lemma failures_at_height:
  assumes "validSchedule S" and "checkChain S net opts chain nodes = Inr r"
  shows "filter (\<lambda>f. mismatchHeight (Reason f) = Some b) (FailedNodes r) =
     (case map_of (collectHashes S (Nodes r) []) b of
        None \<Rightarrow> []
      | Some hm \<Rightarrow> blockRecords S (Nodes r) (b, hm))"
proof -
  have "filter (\<lambda>f. mismatchHeight (Reason f) = Some b)
      (ruleFailures opts (ExpectedChainID r) (MaxBlockNumber r) (Nodes r)) = []"
    by (auto simp: filter_empty_conv dest: ruleFailures_not_mismatch)
  then show ?thesis
    unfolding checkChain_fields(4) [OF assms(2)]
    by (simp add: hashFailures_at_height [OF assms(1)])
qed

text \<open>C1. At a height where all the nodes without failure that report a hash report
  the same one, no record is a hash mismatch for that height. At a height where one
  node \<open>d\<close> alone reports hash \<open>h\<close> and all the other reporting nodes, at least two,
  report one other hash \<open>g\<close>, exactly one hash-mismatch record is about that height; it
  carries the ID of \<open>d\<close>, its hash \<open>h\<close> and the majority hash \<open>g\<close>. Both hold for every
  order in which the maps are visited.\<close>

theorem hash_reconciliation:
  assumes "validSchedule S" and "checkChain S net opts chain nodes = Inr r"
  shows "((\<forall>n \<in> set (Nodes r). \<forall>m \<in> set (Nodes r). \<forall>h h'.
             Error n = None \<and> map_of (BlockHashes n) b = Some h \<and>
             Error m = None \<and> map_of (BlockHashes m) b = Some h' \<longrightarrow> h = h') \<longrightarrow>
          filter (\<lambda>f. mismatchHeight (Reason f) = Some b) (FailedNodes r) = []) \<and>
         (filter (\<lambda>n. Error n = None \<and> map_of (BlockHashes n) b = Some h) (Nodes r) = [d] \<and>
          2 \<le> length (filter (\<lambda>n. Error n = None \<and> map_of (BlockHashes n) b = Some g) (Nodes r)) \<and>
          h \<noteq> g \<and>
          (\<forall>n \<in> set (Nodes r). \<forall>k.
             Error n = None \<and> map_of (BlockHashes n) b = Some k \<longrightarrow> k = h \<or> k = g) \<longrightarrow>
          (\<exists>f. filter (\<lambda>f. mismatchHeight (Reason f) = Some b) (FailedNodes r) = [f] \<and>
               ID f = ID d \<and> Reason f = BlockHashMismatch b h g))"
proof (intro conjI impI)
  note at = failures_at_height [OF assms, of b]
  have dist: "\<forall>n \<in> set (Nodes r). distinct (map fst (BlockHashes n))"
    using assms(2) by (rule probed_distinct)
  have v: "\<forall>m. mset (rangeBlockHashes S m) = mset m"
    using assms(1) by (simp add: validSchedule_def)
  {
    assume same: "\<forall>n \<in> set (Nodes r). \<forall>m \<in> set (Nodes r). \<forall>h h'.
             Error n = None \<and> map_of (BlockHashes n) b = Some h \<and>
             Error m = None \<and> map_of (BlockHashes m) b = Some h' \<longrightarrow> h = h'"
    have agree: "\<forall>h h'. reporters (Nodes r) b h \<noteq> [] \<and> reporters (Nodes r) b h' \<noteq> [] \<longrightarrow> h = h'"
      unfolding reporters_empty_iff using same by blast
    show "filter (\<lambda>f. mismatchHeight (Reason f) = Some b) (FailedNodes r) = []"
    proof (cases "map_of (collectHashes S (Nodes r) []) b")
      case None
      then show ?thesis unfolding at by simp
    next
      case (Some hm)
      have "blockRecords S (Nodes r) (b, hm) = []"
        using assms(1) dist Some agree by (rule blockRecords_unanimous)
      then show ?thesis unfolding at using Some by simp
    qed
  }
  {
    assume hyp: "filter (\<lambda>n. Error n = None \<and> map_of (BlockHashes n) b = Some h) (Nodes r) = [d] \<and>
          2 \<le> length (filter (\<lambda>n. Error n = None \<and> map_of (BlockHashes n) b = Some g) (Nodes r)) \<and>
          h \<noteq> g \<and>
          (\<forall>n \<in> set (Nodes r). \<forall>k.
             Error n = None \<and> map_of (BlockHashes n) b = Some k \<longrightarrow> k = h \<or> k = g)"
    have rh: "reporters (Nodes r) b h = [ID d]"
      using hyp by (simp flip: filter_reporters)
    have rg: "2 \<le> length (reporters (Nodes r) b g)"
      using hyp by (simp flip: filter_reporters)
    have rest: "\<forall>k. k \<noteq> h \<and> k \<noteq> g \<longrightarrow> reporters (Nodes r) b k = []"
      unfolding reporters_empty_iff using hyp by blast
    have "map_of (collectHashes S (Nodes r) []) b \<noteq> None"
      using collected_none [OF v dist, of b h] rh by auto
    then obtain hm where hm: "map_of (collectHashes S (Nodes r) []) b = Some hm" by blast
    have "blockRecords S (Nodes r) (b, hm) = [mismatchNode (Nodes r) b h g (ID d)]"
      using assms(1) dist hm rh rg _ rest by (rule blockRecords_one_dissenter) (use hyp in simp)
    then have "filter (\<lambda>f. mismatchHeight (Reason f) = Some b) (FailedNodes r) =
        [mismatchNode (Nodes r) b h g (ID d)]"
      unfolding at using hm by simp
    then show "\<exists>f. filter (\<lambda>f. mismatchHeight (Reason f) = Some b) (FailedNodes r) = [f] \<and>
               ID f = ID d \<and> Reason f = BlockHashMismatch b h g"
      by simp
  }
qed

theorem hash_reconciliation_witness:
  "validSchedule inOrder \<and>
   checkChain inOrder exampleNet exampleOpts ''sepolia''
     [exampleNode ''a'' ''http://a'', exampleNode ''b'' ''http://b'', exampleNode ''c'' ''http://c''] =
   Inr \<lparr>ChainName = ''sepolia'', Nodes = exampleProbed,
        ExpectedChainID = Some 1, MaxBlockNumber = 3,
        FailedNodes =
          [\<lparr>ID = ''b'', Chain = ''sepolia'', Address = ''http://b'',
            Reason = BlockHashMismatch 3 7 103\<rparr>],
        Passed = False\<rparr> \<and>
   filter (\<lambda>n. Error n = None \<and> map_of (BlockHashes n) 3 = Some 7) exampleProbed =
     [exampleProbed ! 1] \<and>
   2 \<le> length (filter (\<lambda>n. Error n = None \<and> map_of (BlockHashes n) 3 = Some 103) exampleProbed) \<and>
   (\<exists>f. filter (\<lambda>f. mismatchHeight (Reason f) = Some 3)
          [\<lparr>ID = ''b'', Chain = ''sepolia'', Address = ''http://b'',
            Reason = BlockHashMismatch 3 7 103\<rparr>] = [f] \<and>
        ID f = ''b'' \<and> Reason f = BlockHashMismatch 3 7 103) \<and>
   filter (\<lambda>f. mismatchHeight (Reason f) = Some 1)
     [\<lparr>ID = ''b'', Chain = ''sepolia'', Address = ''http://b'',
       Reason = BlockHashMismatch 3 7 103\<rparr>] = []"
proof -
  let ?b = "\<lparr>ID = ''b'', Chain = ''sepolia'', Address = ''http://b'',
            Reason = BlockHashMismatch 3 7 103\<rparr>"
  let ?r = "\<lparr>ChainName = ''sepolia'', Nodes = exampleProbed, ExpectedChainID = Some 1,
        MaxBlockNumber = 3, FailedNodes = [?b], Passed = False\<rparr>"
  have v: "validSchedule inOrder"
    by (simp add: validSchedule_def inOrder_def)
  have e: "checkChain inOrder exampleNet exampleOpts ''sepolia''
     [exampleNode ''a'' ''http://a'', exampleNode ''b'' ''http://b'', exampleNode ''c'' ''http://c''] =
     Inr ?r"
    by code_simp
  have one: "filter (\<lambda>n. Error n = None \<and> map_of (BlockHashes n) 3 = Some 7) exampleProbed =
     [exampleProbed ! 1]"
    by (simp add: exampleProbed_def)
  have two: "2 \<le> length (filter (\<lambda>n. Error n = None \<and> map_of (BlockHashes n) 3 = Some 103)
      exampleProbed)"
    by (simp add: exampleProbed_def)
  have others: "\<forall>n \<in> set exampleProbed. \<forall>k.
      Error n = None \<and> map_of (BlockHashes n) 3 = Some k \<longrightarrow> k = 7 \<or> k = 103"
    by (simp add: exampleProbed_def)
  have same: "\<forall>n \<in> set exampleProbed. \<forall>m \<in> set exampleProbed. \<forall>h h'.
      Error n = None \<and> map_of (BlockHashes n) 1 = Some h \<and>
      Error m = None \<and> map_of (BlockHashes m) 1 = Some h' \<longrightarrow> h = h'"
    by (simp add: exampleProbed_def)
  have d: "ID (exampleProbed ! 1) = ''b''"
    by (simp add: exampleProbed_def)
  have "\<exists>f. filter (\<lambda>f. mismatchHeight (Reason f) = Some 3) (FailedNodes ?r) = [f] \<and>
      ID f = ID (exampleProbed ! 1) \<and> Reason f = BlockHashMismatch 3 7 103"
    using hash_reconciliation [OF v e, of 3 7 "exampleProbed ! 1" 103] one two others by simp
  moreover have "filter (\<lambda>f. mismatchHeight (Reason f) = Some 1) (FailedNodes ?r) = []"
    using hash_reconciliation [OF v e, of 1] same by simp
  ultimately show ?thesis using v e one two d by simp
qed

subsection \<open>One node against one\<close>

lemma findMajority_keys:
  "findMajority xs cur mc = cur \<or> findMajority xs cur mc \<in> fst ` set xs"
proof (induction xs arbitrary: cur mc)
  case Nil
  then show ?case by simp
next
  case (Cons e rest)
  obtain k l where e: "e = (k, l)" by (cases e)
  show ?case
    using Cons.IH [of k "length l"] Cons.IH [of cur mc] unfolding e by auto
qed

lemma findMajority_in_keys:
  assumes "xs \<noteq> []" and "\<forall>e \<in> set xs. snd e \<noteq> []"
  shows "findMajority xs cur 0 \<in> fst ` set xs"
proof -
  obtain k l rest where xs: "xs = (k, l) # rest" using assms(1) by (cases xs) auto
  have "length l > 0" using assms(2) xs by simp
  then have "findMajority xs cur 0 = findMajority rest k (length l)" using xs by simp
  then show ?thesis using findMajority_keys [of rest k "length l"] xs by auto
qed

text \<open>When one node reports \<open>h\<close> and one other node reports \<open>g\<close> at a height, the two
  hashes have one vote each and the majority is the one that the map gives first: one
  record is made, for either of the two nodes.\<close>

lemma blockRecords_tie:
  assumes "validSchedule S"
    and "\<forall>n \<in> set nodes. distinct (map fst (BlockHashes n))"
    and "map_of (collectHashes S nodes []) b = Some hm"
    and "reporters nodes b h = [x]"
    and "reporters nodes b g = [y]"
    and "h \<noteq> g"
    and "\<forall>k. k \<noteq> h \<and> k \<noteq> g \<longrightarrow> reporters nodes b k = []"
  shows "blockRecords S nodes (b, hm) = [mismatchNode nodes b h g x] \<or>
         blockRecords S nodes (b, hm) = [mismatchNode nodes b g h y]"
proof -
  have v: "\<forall>m. mset (rangeBlockHashes S m) = mset m"
    and vm: "mset (rangeMajority S b hm) = mset hm"
    and vr: "mset (rangeReport S b hm) = mset hm"
    using assms(1) by (simp_all add: validSchedule_def)
  note inner = collected_inner [OF v assms(2,3)]
  have mg: "map_of hm g = Some [y]" using inner(2) [of g] assms(5) by simp
  have mh: "map_of hm h = Some [x]" using inner(2) [of h] assms(4) by simp
  have mo: "\<And>k. k \<noteq> h \<Longrightarrow> k \<noteq> g \<Longrightarrow> map_of hm k = None"
    using inner(2) assms(7) by simp
  have "(k, ids) \<in> set hm \<longleftrightarrow> (k, ids) \<in> set [(g, [y]), (h, [x])]" for k ids
  proof -
    have "(k, ids) \<in> set hm \<longleftrightarrow> map_of hm k = Some ids" using inner(1) by simp
    also have "\<dots> \<longleftrightarrow> (k = g \<and> ids = [y]) \<or> (k = h \<and> ids = [x])"
    proof (cases "k = g")
      case True
      then show ?thesis using mg assms(6) by auto
    next
      case False
      then show ?thesis using mh mo [of k] by (cases "k = h") auto
    qed
    finally show ?thesis by auto
  qed
  then have "set hm = set [(g, [y]), (h, [x])]" by (intro set_eqI) (simp only: split_paired_all)
  moreover have "distinct hm" using inner(1) by (rule distinct_map [THEN iffD1, THEN conjunct1])
  moreover have "distinct [(g, [y]), (h, [x])]" using assms(6) by simp
  ultimately have ms: "mset hm = mset [(g, [y]), (h, [x])]"
    by (simp only: set_eq_iff_mset_eq_distinct)
  then have len: "length hm = 2" using mset_eq_length by fastforce
  have sm: "set (rangeMajority S b hm) = {(g, [y]), (h, [x])}"
    using mset_eq_setD [OF vm] mset_eq_setD [OF ms] by simp
  have "(g, [y]) \<in> set (rangeMajority S b hm)" unfolding sm by simp
  then have "0 < length (rangeMajority S b hm)" by (rule length_pos_if_in_set)
  then have "rangeMajority S b hm \<noteq> []" by simp
  moreover have "\<forall>e \<in> set (rangeMajority S b hm). snd e \<noteq> []" unfolding sm by simp
  ultimately have "findMajority (rangeMajority S b hm) 0 0 \<in> fst ` set (rangeMajority S b hm)"
    by (rule findMajority_in_keys)
  then consider (g) "findMajority (rangeMajority S b hm) 0 0 = g"
    | (h) "findMajority (rangeMajority S b hm) 0 0 = h"
    unfolding sm by auto
  then show ?thesis
  proof cases
    case g
    have "mset (hashRecords nodes b g (rangeReport S b hm)) =
        mset (hashRecords nodes b g [(g, [y]), (h, [x])])"
      using vr ms by (intro mset_hashRecords) simp
    also have "\<dots> = {#mismatchNode nodes b h g x#}"
      using assms(6) by (simp add: hashRecords_Cons)
    finally have "hashRecords nodes b g (rangeReport S b hm) = [mismatchNode nodes b h g x]"
      by simp
    then show ?thesis using len g by (simp add: blockRecords_def)
  next
    case h
    have "mset (hashRecords nodes b h (rangeReport S b hm)) =
        mset (hashRecords nodes b h [(g, [y]), (h, [x])])"
      using vr ms by (intro mset_hashRecords) simp
    also have "\<dots> = {#mismatchNode nodes b g h y#}"
      using assms(6) by (simp add: hashRecords_Cons)
    finally have "hashRecords nodes b h (rangeReport S b hm) = [mismatchNode nodes b g h y]"
      by simp
    then show ?thesis using len h by (simp add: blockRecords_def)
  qed
qed

theorem hash_tie:
  assumes "validSchedule S" and "checkChain S net opts chain nodes = Inr r"
    and "filter (\<lambda>n. Error n = None \<and> map_of (BlockHashes n) b = Some h) (Nodes r) = [d]"
    and "filter (\<lambda>n. Error n = None \<and> map_of (BlockHashes n) b = Some g) (Nodes r) = [e]"
    and "h \<noteq> g"
    and "\<forall>n \<in> set (Nodes r). \<forall>k.
           Error n = None \<and> map_of (BlockHashes n) b = Some k \<longrightarrow> k = h \<or> k = g"
  shows "\<exists>f. filter (\<lambda>f. mismatchHeight (Reason f) = Some b) (FailedNodes r) = [f] \<and>
           (ID f = ID d \<and> Reason f = BlockHashMismatch b h g \<or>
            ID f = ID e \<and> Reason f = BlockHashMismatch b g h)"
proof -
  note at = failures_at_height [OF assms(1,2), of b]
  have dist: "\<forall>n \<in> set (Nodes r). distinct (map fst (BlockHashes n))"
    using assms(2) by (rule probed_distinct)
  have v: "\<forall>m. mset (rangeBlockHashes S m) = mset m"
    using assms(1) by (simp add: validSchedule_def)
  have rh: "reporters (Nodes r) b h = [ID d]"
    using assms(3) by (simp flip: filter_reporters)
  have rg: "reporters (Nodes r) b g = [ID e]"
    using assms(4) by (simp flip: filter_reporters)
  have rest: "\<forall>k. k \<noteq> h \<and> k \<noteq> g \<longrightarrow> reporters (Nodes r) b k = []"
    unfolding reporters_empty_iff using assms(6) by blast
  have "map_of (collectHashes S (Nodes r) []) b \<noteq> None"
    using collected_none [OF v dist, of b h] rh by auto
  then obtain hm where hm: "map_of (collectHashes S (Nodes r) []) b = Some hm" by blast
  have "blockRecords S (Nodes r) (b, hm) = [mismatchNode (Nodes r) b h g (ID d)] \<or>
      blockRecords S (Nodes r) (b, hm) = [mismatchNode (Nodes r) b g h (ID e)]"
    using assms(1) dist hm rh rg assms(5) rest by (rule blockRecords_tie)
  then have "filter (\<lambda>f. mismatchHeight (Reason f) = Some b) (FailedNodes r) =
        [mismatchNode (Nodes r) b h g (ID d)] \<or>
      filter (\<lambda>f. mismatchHeight (Reason f) = Some b) (FailedNodes r) =
        [mismatchNode (Nodes r) b g h (ID e)]"
    unfolding at using hm by simp
  then show ?thesis by auto
qed

text \<open>Both happen: with \<open>a\<close> against \<open>b\<close> at height 3, the record is for \<open>b\<close> when the
  map is visited in the order of its list and for \<open>a\<close> when the majority is looked for
  backwards.\<close>

theorem hash_tie_both_orders:
  "validSchedule inOrder \<and> validSchedule majorityBackwards \<and>
   checkChain inOrder exampleNet exampleOpts ''sepolia''
     [exampleNode ''a'' ''http://a'', exampleNode ''b'' ''http://b''] =
   Inr \<lparr>ChainName = ''sepolia'', Nodes = [exampleProbed ! 0, exampleProbed ! 1],
        ExpectedChainID = Some 1, MaxBlockNumber = 3,
        FailedNodes =
          [\<lparr>ID = ''b'', Chain = ''sepolia'', Address = ''http://b'',
            Reason = BlockHashMismatch 3 7 103\<rparr>],
        Passed = False\<rparr> \<and>
   checkChain majorityBackwards exampleNet exampleOpts ''sepolia''
     [exampleNode ''a'' ''http://a'', exampleNode ''b'' ''http://b''] =
   Inr \<lparr>ChainName = ''sepolia'', Nodes = [exampleProbed ! 0, exampleProbed ! 1],
        ExpectedChainID = Some 1, MaxBlockNumber = 3,
        FailedNodes =
          [\<lparr>ID = ''a'', Chain = ''sepolia'', Address = ''http://a'',
            Reason = BlockHashMismatch 3 103 7\<rparr>],
        Passed = False\<rparr>"
proof -
  have "validSchedule inOrder" and "validSchedule majorityBackwards"
    by (simp_all add: validSchedule_def inOrder_def majorityBackwards_def)
  moreover have "checkChain inOrder exampleNet exampleOpts ''sepolia''
     [exampleNode ''a'' ''http://a'', exampleNode ''b'' ''http://b''] =
   Inr \<lparr>ChainName = ''sepolia'', Nodes = [exampleProbed ! 0, exampleProbed ! 1],
        ExpectedChainID = Some 1, MaxBlockNumber = 3,
        FailedNodes =
          [\<lparr>ID = ''b'', Chain = ''sepolia'', Address = ''http://b'',
            Reason = BlockHashMismatch 3 7 103\<rparr>],
        Passed = False\<rparr>"
    by code_simp
  moreover have "checkChain majorityBackwards exampleNet exampleOpts ''sepolia''
     [exampleNode ''a'' ''http://a'', exampleNode ''b'' ''http://b''] =
   Inr \<lparr>ChainName = ''sepolia'', Nodes = [exampleProbed ! 0, exampleProbed ! 1],
        ExpectedChainID = Some 1, MaxBlockNumber = 3,
        FailedNodes =
          [\<lparr>ID = ''a'', Chain = ''sepolia'', Address = ''http://a'',
            Reason = BlockHashMismatch 3 103 7\<rparr>],
        Passed = False\<rparr>"
    by code_simp
  ultimately show ?thesis by simp
qed


section \<open>The classification\<close>

text \<open>C4. The failure records of a chain are the rule failures followed by the hash
  mismatches. The rule failures are those of the classification \<open>firstRule\<close>, which
  tries (a) failure, (b) chain ID mismatch, (c) block gap, (d) missing trace
  capability in this order and gives the reason of the first that matches: at most one
  record for each node, in input order. The hash mismatches are what
  \<^verbatim>\<open>checkBlockHashes\<close> appends, which is the same when no rule failure is there; no
  rule failure is a hash mismatch, and the witness has a node with one of each.\<close>

theorem checkChain_classification:
  assumes "checkChain S net opts chain nodes = Inr r"
  shows "FailedNodes r =
           List.map_filter
             (\<lambda>node. map_option (failedNode node)
                (firstRule opts (ExpectedChainID r) (MaxBlockNumber r) node)) (Nodes r) @
           FailedNodes (checkBlockHashes S (r\<lparr>FailedNodes := [], Passed := True\<rparr>)) \<and>
         (\<forall>n \<in> set (Nodes r). \<forall>x.
            firstRule opts (ExpectedChainID r) (MaxBlockNumber r) n = Some x \<longrightarrow>
            mismatchHeight x = None) \<and>
         (\<forall>f \<in> set (FailedNodes (checkBlockHashes S (r\<lparr>FailedNodes := [], Passed := True\<rparr>))).
            mismatchHeight (Reason f) \<noteq> None)"
proof -
  have "FailedNodes (checkBlockHashes S (r\<lparr>FailedNodes := [], Passed := True\<rparr>)) =
      hashFailures S (Nodes r)"
    by (simp add: checkBlockHashes_eq)
  then show ?thesis
    using checkChain_fields(4) [OF assms] hashFailures_mismatch firstRule_not_mismatch
    by (auto simp: ruleFailures_def)
qed

theorem checkChain_classification_witness:
  "checkChain inOrder exampleNet exampleOpts ''sepolia''
     [exampleNode ''a'' ''http://a'', exampleNode ''c'' ''http://c'', exampleNode ''g'' ''http://g''] =
   Inr \<lparr>ChainName = ''sepolia'',
        Nodes =
          [exampleProbed ! 0, exampleProbed ! 2,
           \<lparr>ID = ''g'', Chain = ''sepolia'', Address = ''http://g'', ChainID = Some 1,
            BlockNumber = 3, BlockHashes = [(3, 7), (2, 102), (1, 101), (0, 100)],
            DebugOK = False, Error = None\<rparr>],
        ExpectedChainID = Some 1, MaxBlockNumber = 3,
        FailedNodes =
          [\<lparr>ID = ''g'', Chain = ''sepolia'', Address = ''http://g'', Reason = DebugNotAvailable\<rparr>,
           \<lparr>ID = ''g'', Chain = ''sepolia'', Address = ''http://g'',
            Reason = BlockHashMismatch 3 7 103\<rparr>],
        Passed = False\<rparr> \<and>
   List.map_filter
     (\<lambda>node. map_option (failedNode node) (firstRule exampleOpts (Some 1) 3 node))
     [exampleProbed ! 0, exampleProbed ! 2,
      \<lparr>ID = ''g'', Chain = ''sepolia'', Address = ''http://g'', ChainID = Some 1,
       BlockNumber = 3, BlockHashes = [(3, 7), (2, 102), (1, 101), (0, 100)],
       DebugOK = False, Error = None\<rparr>] =
     [\<lparr>ID = ''g'', Chain = ''sepolia'', Address = ''http://g'', Reason = DebugNotAvailable\<rparr>] \<and>
   FailedNodes (checkBlockHashes inOrder
     \<lparr>ChainName = ''sepolia'',
      Nodes =
        [exampleProbed ! 0, exampleProbed ! 2,
         \<lparr>ID = ''g'', Chain = ''sepolia'', Address = ''http://g'', ChainID = Some 1,
          BlockNumber = 3, BlockHashes = [(3, 7), (2, 102), (1, 101), (0, 100)],
          DebugOK = False, Error = None\<rparr>],
      ExpectedChainID = Some 1, MaxBlockNumber = 3, FailedNodes = [], Passed = True\<rparr>) =
     [\<lparr>ID = ''g'', Chain = ''sepolia'', Address = ''http://g'',
       Reason = BlockHashMismatch 3 7 103\<rparr>]"
proof -
  let ?g = "\<lparr>ID = ''g'', Chain = ''sepolia'', Address = ''http://g'', ChainID = Some 1,
       BlockNumber = 3, BlockHashes = [(3, 7), (2, 102), (1, 101), (0, 100)],
       DebugOK = False, Error = None\<rparr>"
  let ?nodes = "[exampleProbed ! 0, exampleProbed ! 2, ?g]"
  let ?d = "\<lparr>ID = ''g'', Chain = ''sepolia'', Address = ''http://g'', Reason = DebugNotAvailable\<rparr>"
  let ?m = "\<lparr>ID = ''g'', Chain = ''sepolia'', Address = ''http://g'',
       Reason = BlockHashMismatch 3 7 103\<rparr>"
  let ?r = "\<lparr>ChainName = ''sepolia'', Nodes = ?nodes, ExpectedChainID = Some 1,
       MaxBlockNumber = 3, FailedNodes = [?d, ?m], Passed = False\<rparr>"
  have e: "checkChain inOrder exampleNet exampleOpts ''sepolia''
     [exampleNode ''a'' ''http://a'', exampleNode ''c'' ''http://c'', exampleNode ''g'' ''http://g''] =
     Inr ?r"
    by code_simp
  have rules: "List.map_filter
     (\<lambda>node. map_option (failedNode node) (firstRule exampleOpts (Some 1) 3 node)) ?nodes = [?d]"
    by (simp add: map_filter_simps firstRule_def exampleProbed_def exampleOpts_def failedNode_def)
  have "FailedNodes ?r =
      List.map_filter
        (\<lambda>node. map_option (failedNode node)
           (firstRule exampleOpts (ExpectedChainID ?r) (MaxBlockNumber ?r) node)) (Nodes ?r) @
      FailedNodes (checkBlockHashes inOrder (?r\<lparr>FailedNodes := [], Passed := True\<rparr>))"
    using checkChain_classification [OF e] by (rule conjunct1)
  then have "[?d, ?m] = [?d] @
      FailedNodes (checkBlockHashes inOrder (?r\<lparr>FailedNodes := [], Passed := True\<rparr>))"
    using rules by simp
  then have "FailedNodes (checkBlockHashes inOrder (?r\<lparr>FailedNodes := [], Passed := True\<rparr>)) = [?m]"
    by simp
  then show ?thesis using e rules by simp
qed

section \<open>The block gap\<close>

lemma findMaxBlockNumber_ge:
  "n \<in> set nodes \<Longrightarrow> Error n = None \<Longrightarrow> BlockNumber n \<le> findMaxBlockNumber m nodes"
  unfolding findMaxBlockNumber_Max by (intro Max_ge) auto

lemma probed_same_node:
  assumes "n \<in> set (map (\<lambda>d. fst (checkNode net opts d)) nodes)"
    and "n' \<in> set (map (\<lambda>d. fst (checkNode net opts d)) nodes)"
    and "ID n' = ID n" and "Chain n' = Chain n" and "Address n' = Address n"
  shows "n' = n"
proof -
  from assms(1) obtain d where d: "n = fst (checkNode net opts d)" by auto
  from assms(2) obtain d' where d': "n' = fst (checkNode net opts d')" by auto
  have f: "\<And>x. ID (fst (checkNode net opts x)) = ID x \<and>
      Chain (fst (checkNode net opts x)) = Chain x \<and>
      Address (fst (checkNode net opts x)) = Address x"
    by (auto simp: checkNode_def Let_def split: option.splits sum.splits)
  have "d = d'" using assms(3-5) f [of d] f [of d'] unfolding d d' by simp
  then show ?thesis unfolding d d' by simp
qed

lemma probed_baseline:
  assumes "checkChain S net opts chain nodes = Inr r" and "n \<in> set (Nodes r)"
    and "Error n = None"
  shows "ExpectedChainID r \<noteq> None"
proof -
  note f = checkChain_fields [OF assms(1)]
  have ids: "\<forall>n \<in> set (Nodes r). Error n = None \<longrightarrow> ChainID n \<noteq> None"
    using probed_chainID [OF assms(1)] by blast
  let ?ok = "filter (\<lambda>n. Error n = None) (Nodes r)"
  have "n \<in> set ?ok" using assms(2,3) by simp
  then obtain m rest where ok: "?ok = m # rest" by (cases ?ok) auto
  then have "m \<in> set ?ok" by simp
  then have m: "m \<in> set (Nodes r)" "Error m = None" by simp_all
  have "ExpectedChainID r = ChainID m"
    unfolding f(2) findExpectedChainID_filter [OF ids] ok by simp
  then show ?thesis using ids m by simp
qed

text \<open>C2, as the code has it. For a node without failure the height is at most the
  maximum, so the subtraction does not wrap around. A block-gap record is there for
  it exactly when its chain ID is the expected one and the maximum exceeds its height
  by more than the allowed gap (a gap equal to the allowed gap gives none); the record
  states the gap and the allowed gap. When its chain ID is not the expected one, the
  chain ID mismatch record is there for it, and it is its only record that is not a
  hash mismatch, whatever its gap.\<close>

theorem checkChain_block_gap:
  assumes "checkChain S net opts chain nodes = Inr r"
    and "n \<in> set (Nodes r)" and "Error n = None"
  shows "BlockNumber n \<le> MaxBlockNumber r \<and>
         unat (MaxBlockNumber r - BlockNumber n) = unat (MaxBlockNumber r) - unat (BlockNumber n) \<and>
         ((\<exists>f \<in> set (FailedNodes r). ID f = ID n \<and> Chain f = Chain n \<and> Address f = Address n \<and>
              (\<exists>gap allowed. Reason f = BlockGapTooLarge gap allowed)) \<longleftrightarrow>
          ChainID n = ExpectedChainID r \<and> MaxBlockNumber r - BlockNumber n > MaxBlockGap opts) \<and>
         (\<forall>f \<in> set (FailedNodes r). \<forall>gap allowed.
            ID f = ID n \<and> Chain f = Chain n \<and> Address f = Address n \<and>
            Reason f = BlockGapTooLarge gap allowed \<longrightarrow>
            gap = MaxBlockNumber r - BlockNumber n \<and> allowed = MaxBlockGap opts) \<and>
         (ChainID n \<noteq> ExpectedChainID r \<longrightarrow>
            failedNode n (ChainIDMismatch (the (ExpectedChainID r)) (the (ChainID n))) \<in>
              set (FailedNodes r) \<and>
            (\<forall>f \<in> set (FailedNodes r).
               ID f = ID n \<and> Chain f = Chain n \<and> Address f = Address n \<and>
               mismatchHeight (Reason f) = None \<longrightarrow>
               Reason f = ChainIDMismatch (the (ExpectedChainID r)) (the (ChainID n))))"
proof -
  note f = checkChain_fields [OF assms(1)]
  let ?gap = "MaxBlockNumber r - BlockNumber n"
  let ?mismatch = "ChainIDMismatch (the (ExpectedChainID r)) (the (ChainID n))"
  have le: "BlockNumber n \<le> MaxBlockNumber r"
    unfolding f(3) using assms(2,3) by (rule findMaxBlockNumber_ge)
  then have sub: "unat ?gap = unat (MaxBlockNumber r) - unat (BlockNumber n)"
    by (rule unat_sub)
  have baseline: "ExpectedChainID r \<noteq> None"
    using assms by (rule probed_baseline)
  have mine: "firstRule opts (ExpectedChainID r) (MaxBlockNumber r) n =
      (if ChainID n \<noteq> ExpectedChainID r then Some ?mismatch
       else if ?gap > MaxBlockGap opts then Some (BlockGapTooLarge ?gap (MaxBlockGap opts))
       else if CheckDebugMode opts \<and> \<not> DebugOK n then Some DebugNotAvailable else None)"
    using assms(3) baseline by (simp add: firstRule_def)
  have rules: "firstRule opts (ExpectedChainID r) (MaxBlockNumber r) n = Some (Reason g) \<and>
      g = failedNode n (Reason g)"
    if g: "g \<in> set (FailedNodes r)" "ID g = ID n" "Chain g = Chain n" "Address g = Address n"
      "mismatchHeight (Reason g) = None" for g
  proof -
    have "g \<notin> set (hashFailures S (Nodes r))"
      using g(5) hashFailures_mismatch [of g S "Nodes r"] by auto
    then have "g \<in> set (ruleFailures opts (ExpectedChainID r) (MaxBlockNumber r) (Nodes r))"
      using g(1) unfolding f(4) by simp
    then obtain n' x where n': "n' \<in> set (Nodes r)"
      "firstRule opts (ExpectedChainID r) (MaxBlockNumber r) n' = Some x" "g = failedNode n' x"
      unfolding ruleFailures_member by blast
    have "n' = n"
      using assms(2) n'(1) g(2-4) n'(3) unfolding f(1) by (intro probed_same_node) simp_all
    then show ?thesis using n'(2,3) by simp
  qed
  have gaps: "g = failedNode n (BlockGapTooLarge ?gap (MaxBlockGap opts)) \<and>
      ChainID n = ExpectedChainID r \<and> ?gap > MaxBlockGap opts"
    if g: "g \<in> set (FailedNodes r)" "ID g = ID n" "Chain g = Chain n" "Address g = Address n"
      "Reason g = BlockGapTooLarge gap allowed" for g gap allowed
  proof -
    have "mismatchHeight (Reason g) = None" unfolding g(5) by simp
    then have "firstRule opts (ExpectedChainID r) (MaxBlockNumber r) n = Some (Reason g)"
      and "g = failedNode n (Reason g)"
      using rules [OF g(1-4)] by simp_all
    then show ?thesis unfolding mine g(5) by (auto split: if_splits)
  qed
  have there: "failedNode n (BlockGapTooLarge ?gap (MaxBlockGap opts)) \<in> set (FailedNodes r)"
    if "ChainID n = ExpectedChainID r" "?gap > MaxBlockGap opts"
    unfolding f(4) using that assms(2) mine by (auto simp: ruleFailures_member)
  have iff: "(\<exists>f \<in> set (FailedNodes r). ID f = ID n \<and> Chain f = Chain n \<and> Address f = Address n \<and>
              (\<exists>gap allowed. Reason f = BlockGapTooLarge gap allowed)) \<longleftrightarrow>
          ChainID n = ExpectedChainID r \<and> ?gap > MaxBlockGap opts"
  proof
    assume "\<exists>f \<in> set (FailedNodes r). ID f = ID n \<and> Chain f = Chain n \<and> Address f = Address n \<and>
              (\<exists>gap allowed. Reason f = BlockGapTooLarge gap allowed)"
    then show "ChainID n = ExpectedChainID r \<and> ?gap > MaxBlockGap opts" using gaps by blast
  next
    assume "ChainID n = ExpectedChainID r \<and> ?gap > MaxBlockGap opts"
    then have "failedNode n (BlockGapTooLarge ?gap (MaxBlockGap opts)) \<in> set (FailedNodes r)"
      using there by simp
    then show "\<exists>f \<in> set (FailedNodes r). ID f = ID n \<and> Chain f = Chain n \<and> Address f = Address n \<and>
              (\<exists>gap allowed. Reason f = BlockGapTooLarge gap allowed)"
      by (intro bexI [of _ "failedNode n (BlockGapTooLarge ?gap (MaxBlockGap opts))"]) simp_all
  qed
  have vals: "\<forall>f \<in> set (FailedNodes r). \<forall>gap allowed.
            ID f = ID n \<and> Chain f = Chain n \<and> Address f = Address n \<and>
            Reason f = BlockGapTooLarge gap allowed \<longrightarrow>
            gap = ?gap \<and> allowed = MaxBlockGap opts"
  proof (intro ballI allI impI)
    fix g gap allowed
    assume "g \<in> set (FailedNodes r)"
      and "ID g = ID n \<and> Chain g = Chain n \<and> Address g = Address n \<and>
        Reason g = BlockGapTooLarge gap allowed"
    then have "g = failedNode n (BlockGapTooLarge ?gap (MaxBlockGap opts))"
      and "Reason g = BlockGapTooLarge gap allowed"
      using gaps by blast+
    then show "gap = ?gap \<and> allowed = MaxBlockGap opts" by simp
  qed
  have other: "failedNode n ?mismatch \<in> set (FailedNodes r) \<and>
      (\<forall>f \<in> set (FailedNodes r).
         ID f = ID n \<and> Chain f = Chain n \<and> Address f = Address n \<and>
         mismatchHeight (Reason f) = None \<longrightarrow> Reason f = ?mismatch)"
    if differs: "ChainID n \<noteq> ExpectedChainID r"
  proof
    have "firstRule opts (ExpectedChainID r) (MaxBlockNumber r) n = Some ?mismatch"
      unfolding mine using differs by simp
    then show "failedNode n ?mismatch \<in> set (FailedNodes r)"
      unfolding f(4) using assms(2) by (auto simp: ruleFailures_member)
    show "\<forall>f \<in> set (FailedNodes r).
         ID f = ID n \<and> Chain f = Chain n \<and> Address f = Address n \<and>
         mismatchHeight (Reason f) = None \<longrightarrow> Reason f = ?mismatch"
    proof (intro ballI impI)
      fix g
      assume "g \<in> set (FailedNodes r)"
        and "ID g = ID n \<and> Chain g = Chain n \<and> Address g = Address n \<and>
          mismatchHeight (Reason g) = None"
      then have "firstRule opts (ExpectedChainID r) (MaxBlockNumber r) n = Some (Reason g)"
        using rules by blast
      then show "Reason g = ?mismatch" unfolding mine using differs by simp
    qed
  qed
  show ?thesis using le sub iff vals other by blast
qed


text \<open>Node \<open>h\<close> has the expected chain ID and is 3 blocks behind with an allowed gap of
  2; node \<open>e\<close> is as far behind and has another chain ID.\<close>

theorem checkChain_block_gap_witness:
  "checkChain inOrder exampleNet exampleOpts ''sepolia''
     [exampleNode ''a'' ''http://a'', exampleNode ''h'' ''http://h''] =
   Inr \<lparr>ChainName = ''sepolia'',
        Nodes =
          [exampleProbed ! 0,
           \<lparr>ID = ''h'', Chain = ''sepolia'', Address = ''http://h'', ChainID = Some 1,
            BlockNumber = 0, BlockHashes = [(0, 100)], DebugOK = True, Error = None\<rparr>],
        ExpectedChainID = Some 1, MaxBlockNumber = 3,
        FailedNodes =
          [\<lparr>ID = ''h'', Chain = ''sepolia'', Address = ''http://h'',
            Reason = BlockGapTooLarge 3 2\<rparr>],
        Passed = False\<rparr> \<and>
   (3 :: uint64) - 0 > MaxBlockGap exampleOpts \<and>
   (\<exists>f \<in> set [\<lparr>ID = ''h'', Chain = ''sepolia'', Address = ''http://h'',
                Reason = BlockGapTooLarge 3 2\<rparr>].
      ID f = ''h'' \<and> Chain f = ''sepolia'' \<and> Address f = ''http://h'' \<and>
      (\<exists>gap allowed. Reason f = BlockGapTooLarge gap allowed)) \<and>
   checkChain inOrder exampleNet exampleOpts ''sepolia''
     [exampleNode ''a'' ''http://a'', exampleNode ''e'' ''http://e''] =
   Inr \<lparr>ChainName = ''sepolia'',
        Nodes =
          [exampleProbed ! 0,
           \<lparr>ID = ''e'', Chain = ''sepolia'', Address = ''http://e'', ChainID = Some 2,
            BlockNumber = 0, BlockHashes = [(0, 100)], DebugOK = False, Error = None\<rparr>],
        ExpectedChainID = Some 1, MaxBlockNumber = 3,
        FailedNodes =
          [\<lparr>ID = ''e'', Chain = ''sepolia'', Address = ''http://e'',
            Reason = ChainIDMismatch 1 2\<rparr>],
        Passed = False\<rparr> \<and>
   \<not> (\<exists>f \<in> set [\<lparr>ID = ''e'', Chain = ''sepolia'', Address = ''http://e'',
                  Reason = ChainIDMismatch 1 2\<rparr>].
        ID f = ''e'' \<and> Chain f = ''sepolia'' \<and> Address f = ''http://e'' \<and>
        (\<exists>gap allowed. Reason f = BlockGapTooLarge gap allowed)) \<and>
   failedNode
     \<lparr>ID = ''e'', Chain = ''sepolia'', Address = ''http://e'', ChainID = Some 2,
      BlockNumber = 0, BlockHashes = [(0, 100)], DebugOK = False, Error = None\<rparr>
     (ChainIDMismatch 1 2) \<in>
   set [\<lparr>ID = ''e'', Chain = ''sepolia'', Address = ''http://e'',
         Reason = ChainIDMismatch 1 2\<rparr>]"
proof -
  let ?h = "\<lparr>ID = ''h'', Chain = ''sepolia'', Address = ''http://h'', ChainID = Some 1,
            BlockNumber = 0, BlockHashes = [(0, 100)], DebugOK = True, Error = None\<rparr>"
  let ?r = "\<lparr>ChainName = ''sepolia'', Nodes = [exampleProbed ! 0, ?h],
        ExpectedChainID = Some 1, MaxBlockNumber = 3,
        FailedNodes =
          [\<lparr>ID = ''h'', Chain = ''sepolia'', Address = ''http://h'',
            Reason = BlockGapTooLarge 3 2\<rparr>],
        Passed = False\<rparr>"
  let ?e = "\<lparr>ID = ''e'', Chain = ''sepolia'', Address = ''http://e'', ChainID = Some 2,
            BlockNumber = 0, BlockHashes = [(0, 100)], DebugOK = False, Error = None\<rparr>"
  let ?q = "\<lparr>ChainName = ''sepolia'', Nodes = [exampleProbed ! 0, ?e],
        ExpectedChainID = Some 1, MaxBlockNumber = 3,
        FailedNodes =
          [\<lparr>ID = ''e'', Chain = ''sepolia'', Address = ''http://e'',
            Reason = ChainIDMismatch 1 2\<rparr>],
        Passed = False\<rparr>"
  have e: "checkChain inOrder exampleNet exampleOpts ''sepolia''
     [exampleNode ''a'' ''http://a'', exampleNode ''h'' ''http://h''] = Inr ?r"
    by code_simp
  have q: "checkChain inOrder exampleNet exampleOpts ''sepolia''
     [exampleNode ''a'' ''http://a'', exampleNode ''e'' ''http://e''] = Inr ?q"
    by code_simp
  have gap: "(3 :: uint64) - 0 > MaxBlockGap exampleOpts"
    by (simp add: exampleOpts_def)
  have "(\<exists>f \<in> set (FailedNodes ?r). ID f = ID ?h \<and> Chain f = Chain ?h \<and> Address f = Address ?h \<and>
              (\<exists>gap allowed. Reason f = BlockGapTooLarge gap allowed)) \<longleftrightarrow>
          ChainID ?h = ExpectedChainID ?r \<and>
          MaxBlockNumber ?r - BlockNumber ?h > MaxBlockGap exampleOpts"
    using checkChain_block_gap [OF e, of ?h] by simp
  then have h: "\<exists>f \<in> set (FailedNodes ?r). ID f = ID ?h \<and> Chain f = Chain ?h \<and> Address f = Address ?h \<and>
              (\<exists>gap allowed. Reason f = BlockGapTooLarge gap allowed)"
    using gap by simp
  have "((\<exists>f \<in> set (FailedNodes ?q). ID f = ID ?e \<and> Chain f = Chain ?e \<and> Address f = Address ?e \<and>
              (\<exists>gap allowed. Reason f = BlockGapTooLarge gap allowed)) \<longleftrightarrow>
          ChainID ?e = ExpectedChainID ?q \<and>
          MaxBlockNumber ?q - BlockNumber ?e > MaxBlockGap exampleOpts) \<and>
        (ChainID ?e \<noteq> ExpectedChainID ?q \<longrightarrow>
           failedNode ?e (ChainIDMismatch (the (ExpectedChainID ?q)) (the (ChainID ?e))) \<in>
             set (FailedNodes ?q))"
    using checkChain_block_gap [OF q, of ?e] by simp
  then have n: "\<not> (\<exists>f \<in> set (FailedNodes ?q). ID f = ID ?e \<and> Chain f = Chain ?e \<and>
              Address f = Address ?e \<and> (\<exists>gap allowed. Reason f = BlockGapTooLarge gap allowed))"
    and o: "failedNode ?e (ChainIDMismatch 1 2) \<in> set (FailedNodes ?q)"
    by simp_all
  show ?thesis using e q gap h n o by simp
qed

text \<open>The claim as the specification states it fails: node \<open>e\<close> has no failure and is
  3 blocks behind with an allowed gap of 2, and its only record is the chain ID
  mismatch.\<close>

theorem checkChain_gap_after_chainID:
  "checkChain inOrder exampleNet exampleOpts ''sepolia''
     [exampleNode ''a'' ''http://a'', exampleNode ''e'' ''http://e''] =
   Inr \<lparr>ChainName = ''sepolia'',
        Nodes =
          [exampleProbed ! 0,
           \<lparr>ID = ''e'', Chain = ''sepolia'', Address = ''http://e'', ChainID = Some 2,
            BlockNumber = 0, BlockHashes = [(0, 100)], DebugOK = False, Error = None\<rparr>],
        ExpectedChainID = Some 1, MaxBlockNumber = 3,
        FailedNodes =
          [\<lparr>ID = ''e'', Chain = ''sepolia'', Address = ''http://e'',
            Reason = ChainIDMismatch 1 2\<rparr>],
        Passed = False\<rparr> \<and>
   (3 :: uint64) - 0 > MaxBlockGap exampleOpts"
proof -
  have "(3 :: uint64) - 0 > MaxBlockGap exampleOpts"
    by (simp add: exampleOpts_def)
  moreover have "checkChain inOrder exampleNet exampleOpts ''sepolia''
     [exampleNode ''a'' ''http://a'', exampleNode ''e'' ''http://e''] =
   Inr \<lparr>ChainName = ''sepolia'',
        Nodes =
          [exampleProbed ! 0,
           \<lparr>ID = ''e'', Chain = ''sepolia'', Address = ''http://e'', ChainID = Some 2,
            BlockNumber = 0, BlockHashes = [(0, 100)], DebugOK = False, Error = None\<rparr>],
        ExpectedChainID = Some 1, MaxBlockNumber = 3,
        FailedNodes =
          [\<lparr>ID = ''e'', Chain = ''sepolia'', Address = ''http://e'',
            Reason = ChainIDMismatch 1 2\<rparr>],
        Passed = False\<rparr>"
    by code_simp
  ultimately show ?thesis by simp
qed

section \<open>Failed nodes\<close>

lemma findExpectedChainID_ok:
  "findExpectedChainID (filter (\<lambda>n. Error n = None) nodes) = findExpectedChainID nodes"
  by (induction nodes) auto

lemma findMaxBlockNumber_ok:
  "findMaxBlockNumber m (filter (\<lambda>n. Error n = None) nodes) = findMaxBlockNumber m nodes"
  by (induction nodes arbitrary: m) auto

lemma collectHashes_ok:
  "collectHashes S (filter (\<lambda>n. Error n = None) nodes) m = collectHashes S nodes m"
  by (induction nodes arbitrary: m) auto

lemma hashRecords_names:
  "map (\<lambda>f. (ID f, Reason f)) (hashRecords nodes b maj hm) =
   concat (map (\<lambda>(h, ids). if h = maj then []
                            else map (\<lambda>nodeID. (nodeID, BlockHashMismatch b h maj)) ids) hm)"
  by (induction hm) (auto simp: hashRecords_Cons comp_def)

lemma blockRecords_names:
  "map (\<lambda>f. (ID f, Reason f)) (blockRecords S nodes e) =
   map (\<lambda>f. (ID f, Reason f)) (blockRecords S nodes' e)"
  by (simp add: blockRecords_def hashRecords_names)

lemma hashFailures_names:
  assumes "collectHashes S nodes' [] = collectHashes S nodes []"
  shows "map (\<lambda>f. (ID f, Reason f)) (hashFailures S nodes') =
         map (\<lambda>f. (ID f, Reason f)) (hashFailures S nodes)"
proof -
  have "\<And>B. map (\<lambda>f. (ID f, Reason f)) (concat (map (blockRecords S nodes') B)) =
      map (\<lambda>f. (ID f, Reason f)) (concat (map (blockRecords S nodes) B))"
    by (simp add: map_concat comp_def blockRecords_names [of S nodes' _ nodes])
  then show ?thesis by (simp add: hashFailures_def assms)
qed

lemma mismatches_of_result:
  assumes "checkChain S net opts chain nodes = Inr r"
  shows "filter (\<lambda>f. mismatchHeight (Reason f) \<noteq> None) (FailedNodes r) = hashFailures S (Nodes r)"
proof -
  have "filter (\<lambda>f. mismatchHeight (Reason f) \<noteq> None)
      (ruleFailures opts (ExpectedChainID r) (MaxBlockNumber r) (Nodes r)) = []"
    by (auto simp: filter_empty_conv dest: ruleFailures_not_mismatch)
  moreover have "filter (\<lambda>f. mismatchHeight (Reason f) \<noteq> None) (hashFailures S (Nodes r)) =
      hashFailures S (Nodes r)"
    by (intro filter_True ballI) (rule hashFailures_mismatch)
  ultimately show ?thesis unfolding checkChain_fields(4) [OF assms] by simp
qed

text \<open>C6, as the code has it. A node whose probe failed has the record with the reason
  \<^verbatim>\<open>connection error: \<close> followed by the error, and no other rule failure. The chain
  without the failed nodes has the same expected chain ID, the same maximum block
  number and hash-mismatch records with the same node IDs and the same reasons, in the
  same order: a failed node takes no part in the baseline, the maximum or the vote.\<close>

theorem checkChain_failed_node:
  assumes "checkChain S net opts chain nodes = Inr r"
    and "n \<in> set (Nodes r)" and "Error n = Some err"
  shows "failedNode n (ConnectionError err) \<in> set (FailedNodes r) \<and>
         reasonString (ConnectionError err) = ''connection error: '' @ err \<and>
         (\<forall>f \<in> set (FailedNodes r).
            ID f = ID n \<and> Chain f = Chain n \<and> Address f = Address n \<and>
            mismatchHeight (Reason f) = None \<longrightarrow> Reason f = ConnectionError err) \<and>
         (\<forall>r'. checkChain S net opts chain
                 (filter (\<lambda>d. Error (fst (checkNode net opts d)) = None) nodes) = Inr r' \<longrightarrow>
            Nodes r' = filter (\<lambda>n. Error n = None) (Nodes r) \<and>
            ExpectedChainID r' = ExpectedChainID r \<and>
            MaxBlockNumber r' = MaxBlockNumber r \<and>
            map (\<lambda>f. (ID f, Reason f))
              (filter (\<lambda>f. mismatchHeight (Reason f) \<noteq> None) (FailedNodes r')) =
            map (\<lambda>f. (ID f, Reason f))
              (filter (\<lambda>f. mismatchHeight (Reason f) \<noteq> None) (FailedNodes r)))"
proof -
  note f = checkChain_fields [OF assms(1)]
  have mine: "firstRule opts (ExpectedChainID r) (MaxBlockNumber r) n = Some (ConnectionError err)"
    using assms(3) by (simp add: firstRule_def)
  have there: "failedNode n (ConnectionError err) \<in> set (FailedNodes r)"
    unfolding f(4) using assms(2) mine by (auto simp: ruleFailures_member)
  have only: "Reason g = ConnectionError err"
    if g: "g \<in> set (FailedNodes r)" "ID g = ID n" "Chain g = Chain n" "Address g = Address n"
      "mismatchHeight (Reason g) = None" for g
  proof -
    have "g \<notin> set (hashFailures S (Nodes r))"
      using g(5) hashFailures_mismatch [of g S "Nodes r"] by auto
    then have "g \<in> set (ruleFailures opts (ExpectedChainID r) (MaxBlockNumber r) (Nodes r))"
      using g(1) unfolding f(4) by simp
    then obtain n' x where n': "n' \<in> set (Nodes r)"
      "firstRule opts (ExpectedChainID r) (MaxBlockNumber r) n' = Some x" "g = failedNode n' x"
      unfolding ruleFailures_member by blast
    have "n' = n"
      using assms(2) n'(1) g(2-4) n'(3) unfolding f(1) by (intro probed_same_node) simp_all
    then show ?thesis using n'(2,3) mine by simp
  qed
  have excl: "Nodes r' = filter (\<lambda>n. Error n = None) (Nodes r) \<and>
      ExpectedChainID r' = ExpectedChainID r \<and> MaxBlockNumber r' = MaxBlockNumber r \<and>
      map (\<lambda>f. (ID f, Reason f))
        (filter (\<lambda>f. mismatchHeight (Reason f) \<noteq> None) (FailedNodes r')) =
      map (\<lambda>f. (ID f, Reason f))
        (filter (\<lambda>f. mismatchHeight (Reason f) \<noteq> None) (FailedNodes r))"
    if r': "checkChain S net opts chain
        (filter (\<lambda>d. Error (fst (checkNode net opts d)) = None) nodes) = Inr r'" for r'
  proof -
    note f' = checkChain_fields [OF r']
    have nodes: "Nodes r' = filter (\<lambda>n. Error n = None) (Nodes r)"
      unfolding f'(1) f(1) by (simp add: filter_map comp_def)
    have "collectHashes S (Nodes r') [] = collectHashes S (Nodes r) []"
      unfolding nodes by (rule collectHashes_ok)
    then have "map (\<lambda>f. (ID f, Reason f)) (hashFailures S (Nodes r')) =
        map (\<lambda>f. (ID f, Reason f)) (hashFailures S (Nodes r))"
      by (rule hashFailures_names)
    then have names: "map (\<lambda>f. (ID f, Reason f))
          (filter (\<lambda>f. mismatchHeight (Reason f) \<noteq> None) (FailedNodes r')) =
        map (\<lambda>f. (ID f, Reason f))
          (filter (\<lambda>f. mismatchHeight (Reason f) \<noteq> None) (FailedNodes r))"
      unfolding mismatches_of_result [OF r'] mismatches_of_result [OF assms(1)] .
    have ex: "ExpectedChainID r' = ExpectedChainID r"
      unfolding f'(2) f(2) nodes by (rule findExpectedChainID_ok)
    have mx: "MaxBlockNumber r' = MaxBlockNumber r"
      unfolding f'(3) f(3) nodes by (rule findMaxBlockNumber_ok)
    show ?thesis using nodes ex mx names by (intro conjI)
  qed
  have rs: "reasonString (ConnectionError err) = ''connection error: '' @ err"
    by simp
  have only': "\<forall>f \<in> set (FailedNodes r).
      ID f = ID n \<and> Chain f = Chain n \<and> Address f = Address n \<and>
      mismatchHeight (Reason f) = None \<longrightarrow> Reason f = ConnectionError err"
    using only by blast
  have excl': "\<forall>r'. checkChain S net opts chain
                 (filter (\<lambda>d. Error (fst (checkNode net opts d)) = None) nodes) = Inr r' \<longrightarrow>
            Nodes r' = filter (\<lambda>n. Error n = None) (Nodes r) \<and>
            ExpectedChainID r' = ExpectedChainID r \<and>
            MaxBlockNumber r' = MaxBlockNumber r \<and>
            map (\<lambda>f. (ID f, Reason f))
              (filter (\<lambda>f. mismatchHeight (Reason f) \<noteq> None) (FailedNodes r')) =
            map (\<lambda>f. (ID f, Reason f))
              (filter (\<lambda>f. mismatchHeight (Reason f) \<noteq> None) (FailedNodes r))"
    using excl by blast
  show ?thesis using there rs only' excl' by (intro conjI)
qed

theorem checkChain_failed_node_witness:
  "checkChain inOrder exampleNet exampleOpts ''sepolia''
     [exampleNode ''d'' ''http://d'', exampleNode ''a'' ''http://a''] =
   Inr \<lparr>ChainName = ''sepolia'',
        Nodes =
          [\<lparr>ID = ''d'', Chain = ''sepolia'', Address = ''http://d'', ChainID = None,
            BlockNumber = 0, BlockHashes = [], DebugOK = False,
            Error = Some ''failed to connect: connection refused''\<rparr>,
           exampleProbed ! 0],
        ExpectedChainID = Some 1, MaxBlockNumber = 3,
        FailedNodes =
          [\<lparr>ID = ''d'', Chain = ''sepolia'', Address = ''http://d'',
            Reason = ConnectionError ''failed to connect: connection refused''\<rparr>],
        Passed = False\<rparr> \<and>
   reasonString (ConnectionError ''failed to connect: connection refused'') =
     ''connection error: failed to connect: connection refused'' \<and>
   checkChain inOrder exampleNet exampleOpts ''sepolia''
     (filter (\<lambda>d. Error (fst (checkNode exampleNet exampleOpts d)) = None)
        [exampleNode ''d'' ''http://d'', exampleNode ''a'' ''http://a'']) =
   Inr \<lparr>ChainName = ''sepolia'', Nodes = [exampleProbed ! 0],
        ExpectedChainID = Some 1, MaxBlockNumber = 3, FailedNodes = [], Passed = True\<rparr>"
proof -
  let ?d = "\<lparr>ID = ''d'', Chain = ''sepolia'', Address = ''http://d'', ChainID = None,
            BlockNumber = 0, BlockHashes = [], DebugOK = False,
            Error = Some ''failed to connect: connection refused''\<rparr>"
  let ?r = "\<lparr>ChainName = ''sepolia'', Nodes = [?d, exampleProbed ! 0],
        ExpectedChainID = Some 1, MaxBlockNumber = 3,
        FailedNodes =
          [\<lparr>ID = ''d'', Chain = ''sepolia'', Address = ''http://d'',
            Reason = ConnectionError ''failed to connect: connection refused''\<rparr>],
        Passed = False\<rparr>"
  have e: "checkChain inOrder exampleNet exampleOpts ''sepolia''
     [exampleNode ''d'' ''http://d'', exampleNode ''a'' ''http://a''] = Inr ?r"
    by code_simp
  have e': "checkChain inOrder exampleNet exampleOpts ''sepolia''
     (filter (\<lambda>d. Error (fst (checkNode exampleNet exampleOpts d)) = None)
        [exampleNode ''d'' ''http://d'', exampleNode ''a'' ''http://a'']) =
   Inr \<lparr>ChainName = ''sepolia'', Nodes = [exampleProbed ! 0],
        ExpectedChainID = Some 1, MaxBlockNumber = 3, FailedNodes = [], Passed = True\<rparr>"
    by code_simp
  have "reasonString (ConnectionError ''failed to connect: connection refused'') =
      ''connection error: '' @ ''failed to connect: connection refused''"
    using checkChain_failed_node [OF e, of ?d "''failed to connect: connection refused''"]
    by simp
  then show ?thesis using e e' by simp
qed

text \<open>The claim as the specification states it fails: the reason of the record of the
  failed node \<open>d\<close> does not begin with \<^verbatim>\<open>connection/query error:\<close>.\<close>

theorem checkChain_failed_reason:
  "checkChain inOrder exampleNet exampleOpts ''sepolia'' [exampleNode ''d'' ''http://d''] =
   Inr \<lparr>ChainName = ''sepolia'',
        Nodes =
          [\<lparr>ID = ''d'', Chain = ''sepolia'', Address = ''http://d'', ChainID = None,
            BlockNumber = 0, BlockHashes = [], DebugOK = False,
            Error = Some ''failed to connect: connection refused''\<rparr>],
        ExpectedChainID = None, MaxBlockNumber = 0,
        FailedNodes =
          [\<lparr>ID = ''d'', Chain = ''sepolia'', Address = ''http://d'',
            Reason = ConnectionError ''failed to connect: connection refused''\<rparr>],
        Passed = False\<rparr> \<and>
   reasonString (ConnectionError ''failed to connect: connection refused'') =
     ''connection error: failed to connect: connection refused'' \<and>
   take (length ''connection/query error:'')
     (reasonString (ConnectionError ''failed to connect: connection refused'')) \<noteq>
     ''connection/query error:''"
proof -
  have "checkChain inOrder exampleNet exampleOpts ''sepolia'' [exampleNode ''d'' ''http://d''] =
   Inr \<lparr>ChainName = ''sepolia'',
        Nodes =
          [\<lparr>ID = ''d'', Chain = ''sepolia'', Address = ''http://d'', ChainID = None,
            BlockNumber = 0, BlockHashes = [], DebugOK = False,
            Error = Some ''failed to connect: connection refused''\<rparr>],
        ExpectedChainID = None, MaxBlockNumber = 0,
        FailedNodes =
          [\<lparr>ID = ''d'', Chain = ''sepolia'', Address = ''http://d'',
            Reason = ConnectionError ''failed to connect: connection refused''\<rparr>],
        Passed = False\<rparr>"
    by code_simp
  then show ?thesis by simp
qed


section \<open>The address of a hash-mismatch record\<close>

lemma findNodeInfo_first:
  "nodeID \<in> ID ` set nodes \<Longrightarrow>
   \<exists>i < length nodes. ID (nodes ! i) = nodeID \<and> (\<forall>j < i. ID (nodes ! j) \<noteq> nodeID) \<and>
     findNodeInfo nodes nodeID = (Address (nodes ! i), Chain (nodes ! i))"
proof (induction nodes)
  case Nil
  then show ?case by simp
next
  case (Cons n rest)
  show ?case
  proof (cases "ID n = nodeID")
    case True
    then show ?thesis by (intro exI [of _ 0]) simp
  next
    case False
    then have "nodeID \<in> ID ` set rest" using Cons.prems by auto
    then obtain i where i: "i < length rest" "ID (rest ! i) = nodeID"
      "\<forall>j < i. ID (rest ! j) \<noteq> nodeID"
      "findNodeInfo rest nodeID = (Address (rest ! i), Chain (rest ! i))"
      using Cons.IH by blast
    have "\<forall>j < Suc i. ID ((n # rest) ! j) \<noteq> nodeID"
    proof (intro allI impI)
      fix j assume "j < Suc i"
      then show "ID ((n # rest) ! j) \<noteq> nodeID"
        using False i(3) by (cases j) auto
    qed
    then show ?thesis using False i by (intro exI [of _ "Suc i"]) simp
  qed
qed

lemma hashRecords_member:
  "f \<in> set (hashRecords nodes b maj hm) \<Longrightarrow>
   \<exists>h ids. (h, ids) \<in> set hm \<and> h \<noteq> maj \<and> f \<in> mismatchNode nodes b h maj ` set ids"
proof (induction hm)
  case Nil
  then show ?case by simp
next
  case (Cons e rest)
  obtain k l where e: "e = (k, l)" by (cases e)
  from Cons.prems consider (here) "k \<noteq> maj" "f \<in> mismatchNode nodes b k maj ` set l"
    | (later) "f \<in> set (hashRecords nodes b maj rest)"
    unfolding e by (auto simp: hashRecords_Cons split: if_splits)
  then show ?case
  proof cases
    case here
    then show ?thesis unfolding e by (intro exI [of _ k] exI [of _ l]) simp
  next
    case later
    then obtain h ids where "(h, ids) \<in> set rest" "h \<noteq> maj"
      "f \<in> mismatchNode nodes b h maj ` set ids"
      using Cons.IH by blast
    then show ?thesis by (intro exI [of _ h] exI [of _ ids]) simp
  qed
qed

text \<open>A hash-mismatch record is \<open>mismatchNode\<close> of an ID that reports the hash of the
  record at the height of the record.\<close>

lemma hashFailures_origin:
  assumes "validSchedule S"
    and "\<forall>n \<in> set nodes. distinct (map fst (BlockHashes n))"
    and "f \<in> set (hashFailures S nodes)"
  shows "\<exists>b h maj. f = mismatchNode nodes b h maj (ID f) \<and> ID f \<in> set (reporters nodes b h)"
proof -
  let ?M = "collectHashes S nodes []"
  have v: "\<forall>m. mset (rangeBlockHashes S m) = mset m"
    and vb: "mset (rangeBlockHashNodes S ?M) = mset ?M"
    using assms(1) by (simp_all add: validSchedule_def)
  from assms(3) obtain e where e: "e \<in> set (rangeBlockHashNodes S ?M)"
    "f \<in> set (blockRecords S nodes e)"
    by (auto simp: hashFailures_def)
  obtain b hm where bhm: "e = (b, hm)" by (cases e)
  have "wellFormed ?M" by (rule wellFormed_collectHashes) simp
  then have "distinct (map fst ?M)" by (simp add: wellFormed_def)
  moreover have "(b, hm) \<in> set ?M" using e(1) bhm mset_eq_setD [OF vb] by simp
  ultimately have M: "map_of ?M b = Some hm" by simp
  note inner = collected_inner [OF v assms(2) M]
  have vr: "set (rangeReport S b hm) = set hm"
    using assms(1) by (intro mset_eq_setD) (simp add: validSchedule_def)
  from e(2) bhm obtain maj where "f \<in> set (hashRecords nodes b maj (rangeReport S b hm))"
    by (auto simp: blockRecords_def split: if_splits)
  then obtain h ids where h: "(h, ids) \<in> set hm" "f \<in> mismatchNode nodes b h maj ` set ids"
    using hashRecords_member vr by blast
  have "map_of hm h = Some ids" using h(1) inner(1) by simp
  then have ids: "ids = reporters nodes b h"
    using inner(2) [of h] by (auto split: if_splits)
  from h(2) obtain x where x: "x \<in> set ids" "f = mismatchNode nodes b h maj x" by blast
  then have "ID f = x" by simp
  then show ?thesis using x ids by blast
qed

text \<open>C10. A hash-mismatch record carries the ID of a node without failure that reports
  the hash of the record at the height of the record, and the address and the chain of
  the first node, in input order, that has this ID, failed or not. So when two nodes
  of a chain share an ID, the record of the later one carries the address of the
  earlier one, as in the witness.\<close>

theorem mismatch_record_address:
  assumes "validSchedule S" and "checkChain S net opts chain nodes = Inr r"
    and "f \<in> set (FailedNodes r)" and "Reason f = BlockHashMismatch b h maj"
  shows "(\<exists>n \<in> set (Nodes r). Error n = None \<and> map_of (BlockHashes n) b = Some h \<and> ID n = ID f) \<and>
         (\<exists>i < length (Nodes r).
            ID (Nodes r ! i) = ID f \<and> (\<forall>j < i. ID (Nodes r ! j) \<noteq> ID f) \<and>
            Address f = Address (Nodes r ! i) \<and> Chain f = Chain (Nodes r ! i))"
proof -
  have "f \<notin> set (ruleFailures opts (ExpectedChainID r) (MaxBlockNumber r) (Nodes r))"
    using assms(4) ruleFailures_not_mismatch [of f opts _ _ "Nodes r"] by auto
  then have "f \<in> set (hashFailures S (Nodes r))"
    using assms(3) unfolding checkChain_fields(4) [OF assms(2)] by simp
  then obtain b' h' maj' where o: "f = mismatchNode (Nodes r) b' h' maj' (ID f)"
    "ID f \<in> set (reporters (Nodes r) b' h')"
    using hashFailures_origin [OF assms(1) probed_distinct [OF assms(2)]] by blast
  have "Reason f = BlockHashMismatch b' h' maj'"
    using o(1) mismatchNode_fields(4) by metis
  then have eq: "b' = b" "h' = h" using assms(4) by simp_all
  have rep: "\<exists>n \<in> set (Nodes r). Error n = None \<and> map_of (BlockHashes n) b = Some h \<and> ID n = ID f"
    using o(2) unfolding eq by (auto simp: reporters_def)
  then have "ID f \<in> ID ` set (Nodes r)" by force
  then obtain i where i: "i < length (Nodes r)" "ID (Nodes r ! i) = ID f"
    "\<forall>j < i. ID (Nodes r ! j) \<noteq> ID f"
    "findNodeInfo (Nodes r) (ID f) = (Address (Nodes r ! i), Chain (Nodes r ! i))"
    using findNodeInfo_first by blast
  have "Address f = fst (findNodeInfo (Nodes r) (ID f))"
    and "Chain f = snd (findNodeInfo (Nodes r) (ID f))"
    using o(1) mismatchNode_fields(2,3) by metis+
  then have "Address f = Address (Nodes r ! i)" and "Chain f = Chain (Nodes r ! i)"
    using i(4) by simp_all
  then show ?thesis using rep i(1-3) by blast
qed

theorem mismatch_record_address_witness:
  "validSchedule inOrder \<and>
   GetNodesByChain
     \<lparr>Upstreams =
        [\<lparr>UpstreamID = ''u'', UpstreamChain = ''sepolia'',
          Connectors = [\<lparr>Type = ''json-rpc'', URL = ''http://a''\<rparr>,
                        \<lparr>Type = ''json-rpc'', URL = ''http://b''\<rparr>]\<rparr>,
         \<lparr>UpstreamID = ''v'', UpstreamChain = ''sepolia'',
          Connectors = [\<lparr>Type = ''json-rpc'', URL = ''http://c''\<rparr>]\<rparr>]\<rparr> =
     [(''sepolia'',
       [exampleNode ''u'' ''http://a'', exampleNode ''u'' ''http://b'',
        exampleNode ''v'' ''http://c''])] \<and>
   checkChain inOrder exampleNet exampleOpts ''sepolia''
     [exampleNode ''u'' ''http://a'', exampleNode ''u'' ''http://b'', exampleNode ''v'' ''http://c''] =
     Inr sharedIDResult \<and>
   FailedNodes sharedIDResult =
     [\<lparr>ID = ''u'', Chain = ''sepolia'', Address = ''http://a'',
       Reason = BlockHashMismatch 3 7 103\<rparr>] \<and>
   filter (\<lambda>n. Error n = None \<and> map_of (BlockHashes n) 3 = Some 7) (Nodes sharedIDResult) =
     [Nodes sharedIDResult ! 1] \<and>
   Address (Nodes sharedIDResult ! 1) = ''http://b'' \<and>
   Address (Nodes sharedIDResult ! 0) = ''http://a'' \<and>
   (\<exists>i < length (Nodes sharedIDResult).
      ID (Nodes sharedIDResult ! i) = ID (hd (FailedNodes sharedIDResult)) \<and>
      (\<forall>j < i. ID (Nodes sharedIDResult ! j) \<noteq> ID (hd (FailedNodes sharedIDResult))) \<and>
      Address (hd (FailedNodes sharedIDResult)) = Address (Nodes sharedIDResult ! i) \<and>
      Chain (hd (FailedNodes sharedIDResult)) = Chain (Nodes sharedIDResult ! i))"
proof -
  have v: "validSchedule inOrder"
    by (simp add: validSchedule_def inOrder_def)
  have g: "GetNodesByChain
     \<lparr>Upstreams =
        [\<lparr>UpstreamID = ''u'', UpstreamChain = ''sepolia'',
          Connectors = [\<lparr>Type = ''json-rpc'', URL = ''http://a''\<rparr>,
                        \<lparr>Type = ''json-rpc'', URL = ''http://b''\<rparr>]\<rparr>,
         \<lparr>UpstreamID = ''v'', UpstreamChain = ''sepolia'',
          Connectors = [\<lparr>Type = ''json-rpc'', URL = ''http://c''\<rparr>]\<rparr>]\<rparr> =
     [(''sepolia'',
       [exampleNode ''u'' ''http://a'', exampleNode ''u'' ''http://b'',
        exampleNode ''v'' ''http://c''])]"
    by (simp add: GetNodesByChain_def exampleNode_def)
  have e: "checkChain inOrder exampleNet exampleOpts ''sepolia''
     [exampleNode ''u'' ''http://a'', exampleNode ''u'' ''http://b'', exampleNode ''v'' ''http://c''] =
     Inr sharedIDResult"
    by code_simp
  have f: "FailedNodes sharedIDResult =
     [\<lparr>ID = ''u'', Chain = ''sepolia'', Address = ''http://a'',
       Reason = BlockHashMismatch 3 7 103\<rparr>]"
    by (simp add: sharedIDResult_def)
  have d: "filter (\<lambda>n. Error n = None \<and> map_of (BlockHashes n) 3 = Some 7) (Nodes sharedIDResult) =
      [Nodes sharedIDResult ! 1]"
    "Address (Nodes sharedIDResult ! 1) = ''http://b''"
    "Address (Nodes sharedIDResult ! 0) = ''http://a''"
    by (simp_all add: sharedIDResult_def exampleProbed_def)
  have m: "hd (FailedNodes sharedIDResult) \<in> set (FailedNodes sharedIDResult)"
    and r: "Reason (hd (FailedNodes sharedIDResult)) = BlockHashMismatch 3 7 103"
    by (simp_all add: f)
  show ?thesis
    using mismatch_record_address [OF v e m r] v g e f d by blast
qed

section \<open>The run\<close>

lemma checkChains_returns:
  "\<exists>report. checkChains scheds net opts groups result = Inr report"
proof (induction groups arbitrary: result)
  case Nil
  then show ?case by simp
next
  case (Cons e rest)
  obtain chain nodes where e: "e = (chain, nodes)" by (cases e)
  obtain r where r: "checkChain (scheds chain) net opts chain nodes = Inr r"
    using checkChain_returns by blast
  show ?case unfolding e by (simp add: r Cons.IH)
qed

lemma checkConnectors_Inr:
  "checkConnectors uid cs seen = Inr seen' \<longleftrightarrow>
   [] \<notin> set (map URL cs) \<and> distinct (map URL cs) \<and> set (map URL cs) \<inter> set seen = {} \<and>
   seen' = rev (map URL cs) @ seen"
  by (induction cs arbitrary: seen) auto

lemma checkConnectors_Inl:
  "checkConnectors uid cs seen \<noteq> Inl NilPointerDereference"
  by (induction cs arbitrary: seen) auto

lemma connectorURLs_Nil [simp]: "connectorURLs [] = []"
  by (simp add: connectorURLs_def)

lemma connectorURLs_Cons [simp]:
  "connectorURLs (u # us) = map URL (Connectors u) @ connectorURLs us"
  by (simp add: connectorURLs_def)

lemma checkUpstreams_Inr:
  "checkUpstreams us seen = Inr seen' \<longleftrightarrow>
   [] \<notin> set (connectorURLs us) \<and> distinct (connectorURLs us) \<and>
   set (connectorURLs us) \<inter> set seen = {} \<and> seen' = rev (connectorURLs us) @ seen"
proof (induction us arbitrary: seen)
  case Nil
  then show ?case by auto
next
  case (Cons u us)
  show ?case
  proof (cases "checkConnectors (UpstreamID u) (Connectors u) seen")
    case (Inl e)
    then have "\<not> ([] \<notin> set (map URL (Connectors u)) \<and> distinct (map URL (Connectors u)) \<and>
        set (map URL (Connectors u)) \<inter> set seen = {})"
      using checkConnectors_Inr [of "UpstreamID u" "Connectors u" seen] by auto
    then show ?thesis using Inl by auto
  next
    case (Inr s)
    then have s: "[] \<notin> set (map URL (Connectors u))" "distinct (map URL (Connectors u))"
      "set (map URL (Connectors u)) \<inter> set seen = {}" "s = rev (map URL (Connectors u)) @ seen"
      unfolding checkConnectors_Inr by simp_all
    have step: "checkUpstreams (u # us) seen = checkUpstreams us s" using Inr by simp
    have "checkUpstreams (u # us) seen = Inr seen' \<longleftrightarrow> checkUpstreams us s = Inr seen'"
      by (simp only: step)
    also have "\<dots> \<longleftrightarrow> [] \<notin> set (connectorURLs us) \<and> distinct (connectorURLs us) \<and>
        set (connectorURLs us) \<inter> set s = {} \<and> seen' = rev (connectorURLs us) @ s"
      by (rule Cons.IH)
    also have "\<dots> \<longleftrightarrow> [] \<notin> set (connectorURLs (u # us)) \<and> distinct (connectorURLs (u # us)) \<and>
        set (connectorURLs (u # us)) \<inter> set seen = {} \<and>
        seen' = rev (connectorURLs (u # us)) @ seen"
      using s by auto
    finally show ?thesis .
  qed
qed

lemma checkUpstreams_Inl: "checkUpstreams us seen \<noteq> Inl NilPointerDereference"
proof (induction us arbitrary: seen)
  case Nil
  then show ?case by simp
next
  case (Cons u us)
  then show ?case
    using checkConnectors_Inl [of "UpstreamID u" "Connectors u" seen]
    by (cases "checkConnectors (UpstreamID u) (Connectors u) seen") auto
qed

lemma addConnectors_none:
  "\<forall>c \<in> set cs. Type c \<noteq> ''json-rpc'' \<Longrightarrow> addConnectors u cs result = result"
  by (induction cs arbitrary: result) auto

lemma addUpstreams_none:
  "\<forall>u \<in> set us. \<forall>c \<in> set (Connectors u). Type c \<noteq> ''json-rpc'' \<Longrightarrow>
   addUpstreams us result = result"
  by (induction us arbitrary: result) (auto simp: addConnectors_none)

text \<open>C9, as the code has it. \<^verbatim>\<open>Check\<close> always returns a report and never an error.
  The setup errors are those of \<^verbatim>\<open>Load\<close>, which takes no endpoint and so comes before
  any probe: it returns the configuration exactly when the file is read and parsed,
  has at least one upstream, and its connector URLs are non-empty and distinct; it
  never panics. A configuration with upstreams and no JSON-RPC connector is loaded,
  and \<^verbatim>\<open>Check\<close> returns for it the report with no chain, no failure and \<open>passed\<close>
  true.\<close>

theorem Check_returns_report:
  "(\<exists>report. Check rangeChains scheds net opts cfg = Inr report) \<and>
   (Load readFile unmarshal path = Inr cfg \<longleftrightarrow>
      (\<exists>data. readFile path = Inr data \<and> unmarshal data = Inr cfg \<and> Upstreams cfg \<noteq> [] \<and>
         [] \<notin> set (connectorURLs (Upstreams cfg)) \<and> distinct (connectorURLs (Upstreams cfg)))) \<and>
   Load readFile unmarshal path \<noteq> Inl NilPointerDereference \<and>
   (rangeChains [] = [] \<and>
    (\<forall>u \<in> set (Upstreams cfg). \<forall>c \<in> set (Connectors u). Type c \<noteq> ''json-rpc'') \<longrightarrow>
      Check rangeChains scheds net opts cfg =
        Inr \<lparr>ChainResults = [], AllFailedNodes = [], AllPassed = True\<rparr>)"
proof (intro conjI)
  show "\<exists>report. Check rangeChains scheds net opts cfg = Inr report"
    unfolding Check_def by (rule checkChains_returns)
  show "Load readFile unmarshal path = Inr cfg \<longleftrightarrow>
      (\<exists>data. readFile path = Inr data \<and> unmarshal data = Inr cfg \<and> Upstreams cfg \<noteq> [] \<and>
         [] \<notin> set (connectorURLs (Upstreams cfg)) \<and> distinct (connectorURLs (Upstreams cfg)))"
  proof (cases "readFile path")
    case (Inl err)
    then show ?thesis by (simp add: Load_def)
  next
    case (Inr data)
    show ?thesis
    proof (cases "unmarshal data")
      case (Inl err)
      then show ?thesis using Inr by (simp add: Load_def)
    next
      case parsed: (Inr c)
      have "(\<exists>seen. checkUpstreams (Upstreams c) [] = Inr seen) \<longleftrightarrow>
          [] \<notin> set (connectorURLs (Upstreams c)) \<and> distinct (connectorURLs (Upstreams c))"
        unfolding checkUpstreams_Inr by simp
      then show ?thesis
        using Inr parsed
        by (cases "checkUpstreams (Upstreams c) []") (auto simp: Load_def)
    qed
  qed
  show "Load readFile unmarshal path \<noteq> Inl NilPointerDereference"
    using checkUpstreams_Inl [of _ "[]"]
    by (auto simp: Load_def split: sum.splits)
  show "rangeChains [] = [] \<and>
    (\<forall>u \<in> set (Upstreams cfg). \<forall>c \<in> set (Connectors u). Type c \<noteq> ''json-rpc'') \<longrightarrow>
      Check rangeChains scheds net opts cfg =
        Inr \<lparr>ChainResults = [], AllFailedNodes = [], AllPassed = True\<rparr>"
    by (simp add: Check_def GetNodesByChain_def addUpstreams_none)
qed

theorem Check_returns_report_witness:
  "(\<lambda>m :: (string \<times> NodeInfo list) list. m) [] = [] \<and>
   Load (\<lambda>p. Inr ''upstream-config'') (\<lambda>d. Inr noRpcConfig) ''config.yaml'' = Inr noRpcConfig \<and>
   Upstreams noRpcConfig \<noteq> [] \<and>
   [] \<notin> set (connectorURLs (Upstreams noRpcConfig)) \<and>
   distinct (connectorURLs (Upstreams noRpcConfig)) \<and>
   Check (\<lambda>m. m) (\<lambda>chain. inOrder) exampleNet exampleOpts noRpcConfig =
     Inr \<lparr>ChainResults = [], AllFailedNodes = [], AllPassed = True\<rparr>"
proof -
  have none: "\<forall>u \<in> set (Upstreams noRpcConfig). \<forall>c \<in> set (Connectors u). Type c \<noteq> ''json-rpc''"
    by (simp add: noRpcConfig_def)
  have urls: "Upstreams noRpcConfig \<noteq> []" "[] \<notin> set (connectorURLs (Upstreams noRpcConfig))"
    "distinct (connectorURLs (Upstreams noRpcConfig))"
    by (simp_all add: noRpcConfig_def)
  note t = Check_returns_report [of "\<lambda>m. m" "\<lambda>chain. inOrder" exampleNet exampleOpts noRpcConfig
      "\<lambda>p. Inr ''upstream-config''" "\<lambda>d. Inr noRpcConfig" "''config.yaml''"]
  have "Load (\<lambda>p. Inr ''upstream-config'') (\<lambda>d. Inr noRpcConfig) ''config.yaml'' = Inr noRpcConfig"
    using t urls by blast
  moreover have "Check (\<lambda>m. m) (\<lambda>chain. inOrder) exampleNet exampleOpts noRpcConfig =
     Inr \<lparr>ChainResults = [], AllFailedNodes = [], AllPassed = True\<rparr>"
    using t none by blast
  ultimately show ?thesis using urls by simp
qed

text \<open>The claim as the specification states it fails: the configuration is loaded
  without error, no chain is there to evaluate, and the report says \<open>passed\<close>.\<close>

theorem Check_no_chains_passes:
  "Load (\<lambda>p. Inr ''upstream-config'') (\<lambda>d. Inr noRpcConfig) ''config.yaml'' = Inr noRpcConfig \<and>
   GetNodesByChain noRpcConfig = [] \<and>
   Check (\<lambda>m. m) (\<lambda>chain. inOrder) exampleNet exampleOpts noRpcConfig =
     Inr \<lparr>ChainResults = [], AllFailedNodes = [], AllPassed = True\<rparr>"
  by (simp add: Load_def Check_def GetNodesByChain_def noRpcConfig_def)


end
